theory Spec2Isabelle
  imports Complex_Main
begin

section \<open>Run-time failures and timestamps\<close>

text \<open>
  The Go functions of the package return plain strings; the only way one of them can fail is
  a run-time panic (an index or a slice bound out of range). Each panic of the source is a
  value of \<open>error\<close>, and a function that can reach one returns \<open>error + 'a\<close>.
\<close>

datatype error = IndexOutOfRange | SliceBoundsOutOfRange

text \<open>
  A \<open>time.Time\<close> of Go's standard library is an instant together with a location. The model
  keeps what the package reads from it: the instant as seconds since the Unix epoch and
  nanoseconds within the second, and the name and the offset (seconds east of UTC) of the zone
  in force at that instant. The standard library keeps \<open>nsec\<close> below \<open>10^9\<close>.
\<close>

record Time =
  unixSec :: int
  nsec :: nat
  zoneName :: string
  zoneOffset :: int

definition wf_Time :: "Time \<Rightarrow> bool" where
  "wf_Time t \<longleftrightarrow> nsec t < 1000000000"

definition Nanosecond :: "Time \<Rightarrow> nat" where
  "Nanosecond t = nsec t"

section \<open>Fractional seconds: \<open>formatNano\<close>\<close>

definition digit_char :: "nat \<Rightarrow> char" where
  "digit_char d = char_of (d + 48)"

text \<open>
  The first loop of \<open>formatNano\<close>: \<open>start\<close> runs from \<open>len(buf)\<close> down to 0, each round
  storing \<open>u % 10 + '0'\<close> at \<open>buf[start]\<close> and dividing \<open>u\<close> by 10.
\<close>

fun fill_buf :: "nat \<Rightarrow> nat \<Rightarrow> string \<Rightarrow> string" where
  "fill_buf 0 u buf = buf"
| "fill_buf (Suc start) u buf = fill_buf start (u div 10) (buf[start := digit_char (u mod 10)])"

text \<open>The trimming loop: \<open>for n > 0 && buf[n-1] == '0' { n-- }\<close>.\<close>

function trim_zeros :: "string \<Rightarrow> int \<Rightarrow> int" where
  "trim_zeros buf n = (if n > 0 \<and> buf ! nat (n - 1) = CHR ''0'' then trim_zeros buf (n - 1) else n)"
  by pat_completeness auto
termination
  by (relation "measure (\<lambda>(buf, n). nat n)") auto

declare trim_zeros.simps [simp del]

text \<open>
  \<open>buf[:n]\<close> on the 9-byte array panics when \<open>n\<close> is negative; \<open>n\<close> is at most 9 after
  the clamp, so the upper bound is never exceeded.
\<close>

definition formatNano :: "nat \<Rightarrow> int \<Rightarrow> bool \<Rightarrow> error + string" where
  "formatNano nanosec n trim =
     (let buf = fill_buf 9 nanosec (replicate 9 (CHR 0x00));
          n1 = (if n > 9 then 9 else n);
          n2 = (if trim then trim_zeros buf n1 else n1)
      in if trim \<and> n2 = 0 then Inr (take 0 buf)
         else if n2 < 0 then Inl SliceBoundsOutOfRange
         else Inr (take (nat n2) buf))"

text \<open>
  \<open>match[1]\<close> panics on a string shorter than two bytes; \<open>match[1] - '0'\<close> is byte
  arithmetic and wraps modulo 256.
\<close>

definition formatNanoForMatch :: "string \<Rightarrow> Time \<Rightarrow> error + string" where
  "formatNanoForMatch match t =
     (if length match < 2 then Inl IndexOutOfRange
      else let size = int ((of_char (match ! 1) + 256 - 48) mod 256)
           in formatNano (Nanosecond t) size False)"

section \<open>The calendar of Go's \<open>time\<close> package\<close>

text \<open>
  The accessors of \<open>time.Time\<close> read the proleptic Gregorian calendar at the instant shifted
  by the zone offset. \<open>civil\<close> turns a day count since 1970-01-01 into year, month and day;
  \<open>days_from_civil\<close> is its inverse and gives \<open>time.Date\<close> for a date in UTC.
\<close>

definition localSec :: "Time \<Rightarrow> int" where
  "localSec t = unixSec t + zoneOffset t"

definition civil :: "int \<Rightarrow> int \<times> int \<times> int" where
  "civil days =
     (let z = days + 719468;
          era = z div 146097;
          doe = z mod 146097;
          yoe = (doe - doe div 1460 + doe div 36524 - doe div 146096) div 365;
          doy = doe - (365 * yoe + yoe div 4 - yoe div 100);
          mp = (5 * doy + 2) div 153;
          d = doy - (153 * mp + 2) div 5 + 1;
          m = (if mp < 10 then mp + 3 else mp - 9);
          y = yoe + era * 400
      in (if m \<le> 2 then y + 1 else y, m, d))"

definition days_from_civil :: "int \<Rightarrow> int \<Rightarrow> int \<Rightarrow> int" where
  "days_from_civil y m d =
     (let y1 = (if m \<le> 2 then y - 1 else y);
          era = y1 div 400;
          yoe = y1 mod 400;
          doy = (153 * (if m > 2 then m - 3 else m + 9) + 2) div 5 + d - 1;
          doe = yoe * 365 + yoe div 4 - yoe div 100 + doy
      in era * 146097 + doe - 719468)"

definition Year :: "Time \<Rightarrow> int" where
  "Year t = fst (civil (localSec t div 86400))"

definition Month :: "Time \<Rightarrow> int" where
  "Month t = fst (snd (civil (localSec t div 86400)))"

definition Day :: "Time \<Rightarrow> int" where
  "Day t = snd (snd (civil (localSec t div 86400)))"

definition Hour :: "Time \<Rightarrow> int" where
  "Hour t = (localSec t mod 86400) div 3600"

definition Minute :: "Time \<Rightarrow> int" where
  "Minute t = (localSec t mod 3600) div 60"

definition Second :: "Time \<Rightarrow> int" where
  "Second t = localSec t mod 60"

text \<open>\<open>Weekday\<close>: 0 is Sunday; 1970-01-01 was a Thursday.\<close>

definition Weekday :: "Time \<Rightarrow> int" where
  "Weekday t = (localSec t div 86400 + 4) mod 7"

text \<open>
  \<open>time.Date(year, month, day, hour, min, sec, nsec, time.UTC)\<close> for fields within their
  ranges, which is how the package and its tests call it (\<open>time.Date\<close> also normalises
  fields outside their ranges; that is not modelled).
\<close>

definition Date_UTC :: "int \<Rightarrow> int \<Rightarrow> int \<Rightarrow> int \<Rightarrow> int \<Rightarrow> int \<Rightarrow> nat \<Rightarrow> Time" where
  "Date_UTC year month day hour minute sec ns =
     \<lparr>unixSec = days_from_civil year month day * 86400 + hour * 3600 + minute * 60 + sec,
      nsec = ns, zoneName = ''UTC'', zoneOffset = 0\<rparr>"

text \<open>
  The instant in nanoseconds since the epoch; \<open>Before\<close> and \<open>Add\<close> compare and move it.
  Instants are unbounded integers: the 64-bit second counter of a \<open>time.Time\<close>, which
  wraps some 292 billion years from the epoch, is not modelled.
\<close>

definition unixNano :: "Time \<Rightarrow> int" where
  "unixNano t = unixSec t * 1000000000 + int (nsec t)"

definition Before :: "Time \<Rightarrow> Time \<Rightarrow> bool" where
  "Before t u \<longleftrightarrow> unixNano t < unixNano u"

definition Add :: "Time \<Rightarrow> int \<Rightarrow> Time" where
  "Add t d =
     (let n = unixNano t + d
      in t\<lparr>unixSec := n div 1000000000, nsec := nat (n mod 1000000000)\<rparr>)"

text \<open>
  \<open>t.Sub(u)\<close> is a \<open>Duration\<close>, an \<open>int64\<close> count of nanoseconds; a difference out of
  range saturates at the least or the greatest \<open>int64\<close>.
\<close>

definition Sub :: "Time \<Rightarrow> Time \<Rightarrow> int" where
  "Sub t u =
     (let d = unixNano t - unixNano u
      in if d < - 9223372036854775808 then - 9223372036854775808
         else if d > 9223372036854775807 then 9223372036854775807
         else d)"

definition Hour_ns :: int where
  "Hour_ns = 3600000000000"

definition WEEK :: int where
  "WEEK = Hour_ns * 24 * 7"

section \<open>Decimal output\<close>

fun decimal :: "nat \<Rightarrow> string" where
  "decimal n = (if n < 10 then [digit_char n] else decimal (n div 10) @ [digit_char (n mod 10)])"

declare decimal.simps [simp del]

definition pad0 :: "nat \<Rightarrow> string \<Rightarrow> string" where
  "pad0 w s = replicate (w - length s) (CHR ''0'') @ s"

text \<open>
  \<open>appendInt\<close> of the \<open>time\<close> package: the sign, then the digits padded with zeros to
  \<open>width\<close>.
\<close>

definition appendInt :: "int \<Rightarrow> nat \<Rightarrow> string" where
  "appendInt x width =
     (if x < 0 then CHR ''-'' # pad0 width (decimal (nat (- x))) else pad0 width (decimal (nat x)))"

text \<open>
  \<open>fmt.Sprintf("%0wd", x)\<close>: the zero flag pads to \<open>w\<close> columns, the sign taking one
  of them; \<open>fmt.Sprintf("%d", x)\<close> is the case \<open>w = 0\<close>.
\<close>

definition Sprintf_0d :: "nat \<Rightarrow> int \<Rightarrow> string" where
  "Sprintf_0d w x =
     (if x < 0 then CHR ''-'' # pad0 (w - 1) (decimal (nat (- x))) else pad0 w (decimal (nat x)))"

section \<open>\<open>Time.Format\<close> on the layouts of the package\<close>

text \<open>
  \<open>Time.Format\<close> cuts its layout into reference elements and literal bytes and renders each
  element from the timestamp. The elements below are the ones that occur in the layouts the
  package passes (\<open>Mon\<close>, \<open>Monday\<close>, \<open>Jan\<close>, \<open>January\<close>, \<open>time.RFC1123\<close>, \<open>02\<close>,
  \<open>15\<close>, \<open>3\<close>, \<open>01\<close>, \<open>04\<close>, \<open>PM\<close>, \<open>05\<close>, \<open>01/02/06\<close>, \<open>15:04:05\<close>, \<open>06\<close>,
  \<open>2006\<close>, \<open>MST\<close>); a byte that starts none of them is copied.
\<close>

datatype chunk =
    stdLongMonth | stdMonth | stdLongWeekDay | stdWeekDay | stdTZ
  | stdZeroMonth | stdZeroDay | stdZeroMinute | stdZeroSecond | stdYear | stdLongYear
  | stdHour | stdHour12 | stdPM | Literal char

definition hasPrefix :: "string \<Rightarrow> string \<Rightarrow> bool" where
  "hasPrefix s p \<longleftrightarrow> take (length p) s = p"

definition startsWithLowerCase :: "string \<Rightarrow> bool" where
  "startsWithLowerCase s =
     (case s of [] \<Rightarrow> False | c # _ \<Rightarrow> (97::nat) \<le> of_char c \<and> of_char c \<le> (122::nat))"

definition nextStdChunk :: "string \<Rightarrow> (chunk \<times> nat) option" where
  "nextStdChunk s =
     (if hasPrefix s ''January'' then Some (stdLongMonth, 7)
      else if hasPrefix s ''Jan'' \<and> \<not> startsWithLowerCase (drop 3 s) then Some (stdMonth, 3)
      else if hasPrefix s ''Monday'' then Some (stdLongWeekDay, 6)
      else if hasPrefix s ''Mon'' \<and> \<not> startsWithLowerCase (drop 3 s) then Some (stdWeekDay, 3)
      else if hasPrefix s ''MST'' then Some (stdTZ, 3)
      else if hasPrefix s ''01'' then Some (stdZeroMonth, 2)
      else if hasPrefix s ''02'' then Some (stdZeroDay, 2)
      else if hasPrefix s ''04'' then Some (stdZeroMinute, 2)
      else if hasPrefix s ''05'' then Some (stdZeroSecond, 2)
      else if hasPrefix s ''06'' then Some (stdYear, 2)
      else if hasPrefix s ''15'' then Some (stdHour, 2)
      else if hasPrefix s ''2006'' then Some (stdLongYear, 4)
      else if hasPrefix s ''3'' then Some (stdHour12, 1)
      else if hasPrefix s ''PM'' then Some (stdPM, 2)
      else None)"

function layout_chunks :: "string \<Rightarrow> chunk list" where
  "layout_chunks [] = []"
| "layout_chunks (c # s) =
     (case nextStdChunk (c # s) of
        Some (std, n) \<Rightarrow> std # layout_chunks (drop (n - 1) s)
      | None \<Rightarrow> Literal c # layout_chunks s)"
  by pat_completeness auto
termination
  by (relation "measure length") auto

definition longMonthNames :: "string list" where
  "longMonthNames = [''January'', ''February'', ''March'', ''April'', ''May'', ''June'', ''July'',
     ''August'', ''September'', ''October'', ''November'', ''December'']"

definition longDayNames :: "string list" where
  "longDayNames = [''Sunday'', ''Monday'', ''Tuesday'', ''Wednesday'', ''Thursday'', ''Friday'',
     ''Saturday'']"

definition Month_String :: "int \<Rightarrow> string" where
  "Month_String m =
     (if 1 \<le> m \<and> m \<le> 12 then longMonthNames ! nat (m - 1)
      else ''%!Month('' @ decimal (nat m) @ '')'')"

definition Weekday_String :: "int \<Rightarrow> string" where
  "Weekday_String d =
     (if 0 \<le> d \<and> d \<le> 6 then longDayNames ! nat d
      else ''%!Weekday('' @ decimal (nat d) @ '')'')"

text \<open>Go's integer division and remainder truncate towards zero.\<close>

definition quo :: "int \<Rightarrow> int \<Rightarrow> int" where
  "quo a b = sgn a * sgn b * (\<bar>a\<bar> div \<bar>b\<bar>)"

definition rem :: "int \<Rightarrow> int \<Rightarrow> int" where
  "rem a b = a - b * quo a b"

definition render_chunk :: "Time \<Rightarrow> chunk \<Rightarrow> string" where
  "render_chunk t c =
     (case c of
        stdYear \<Rightarrow> appendInt (\<bar>Year t\<bar> mod 100) 2
      | stdLongYear \<Rightarrow> appendInt (Year t) 4
      | stdMonth \<Rightarrow> take 3 (Month_String (Month t))
      | stdLongMonth \<Rightarrow> Month_String (Month t)
      | stdZeroMonth \<Rightarrow> appendInt (Month t) 2
      | stdWeekDay \<Rightarrow> take 3 (Weekday_String (Weekday t))
      | stdLongWeekDay \<Rightarrow> Weekday_String (Weekday t)
      | stdZeroDay \<Rightarrow> appendInt (Day t) 2
      | stdHour \<Rightarrow> appendInt (Hour t) 2
      | stdHour12 \<Rightarrow> (let hr = Hour t mod 12 in appendInt (if hr = 0 then 12 else hr) 0)
      | stdZeroMinute \<Rightarrow> appendInt (Minute t) 2
      | stdZeroSecond \<Rightarrow> appendInt (Second t) 2
      | stdPM \<Rightarrow> (if Hour t \<ge> 12 then ''PM'' else ''AM'')
      | stdTZ \<Rightarrow>
          (if zoneName t \<noteq> [] then zoneName t
           else let zone = quo (zoneOffset t) 60
                in (if zone < 0 then ''-'' else ''+'')
                   @ appendInt (quo \<bar>zone\<bar> 60) 2 @ appendInt (rem \<bar>zone\<bar> 60) 2)
      | Literal b \<Rightarrow> [b])"

definition Time_Format :: "Time \<Rightarrow> string \<Rightarrow> string" where
  "Time_Format t layout = concat (map (render_chunk t) (layout_chunks layout))"

definition RFC1123 :: string where
  "RFC1123 = ''Mon, 02 Jan 2006 15:04:05 MST''"

section \<open>Binary floating point\<close>

text \<open>
  Go's \<open>float64\<close> is the IEEE 754 binary64 format. Converting an integer, adding and
  dividing each give the representable number nearest to the exact result, a tie going to
  the even significand. A finite \<open>float64\<close> is a rational, so the model computes the exact
  rational result and rounds it with \<open>float64\<close>. The results that occur here are far below
  the overflow threshold, which is therefore not modelled.
\<close>

text \<open>
  The exponent of a positive rational \<open>q\<close>, the integer \<open>e\<close> with \<open>2^e \<le> q < 2^(e+1)\<close>:
  halve while \<open>q\<close> is at least 2, or double while it is below 1.
\<close>

function exp_up :: "rat \<Rightarrow> int" where
  "exp_up q = (if 2 \<le> q then exp_up (q / 2) + 1 else 0)"
  by pat_completeness auto
termination
proof (relation "measure (\<lambda>q. nat \<lfloor>q\<rfloor>)")
  show "wf (measure (\<lambda>q::rat. nat \<lfloor>q\<rfloor>))" by simp
next
  fix q :: rat
  assume q: "2 \<le> q"
  then have pos: "2 \<le> \<lfloor>q\<rfloor>"
    by (simp add: le_floor_iff)
  then have "(2::rat) \<le> of_int \<lfloor>q\<rfloor>"
    by (metis of_int_le_iff of_int_numeral)
  moreover have "q / 2 < of_int \<lfloor>q\<rfloor> / 2 + 1 / 2"
    using floor_correct [of q] by simp
  ultimately have "q / 2 < of_int \<lfloor>q\<rfloor>"
    by linarith
  then have "\<lfloor>q / 2\<rfloor> < \<lfloor>q\<rfloor>"
    by (simp add: floor_less_iff)
  with pos show "(q / 2, q) \<in> measure (\<lambda>q. nat \<lfloor>q\<rfloor>)" by simp
qed

function exp_down :: "rat \<Rightarrow> int" where
  "exp_down q = (if 0 < q \<and> q < 1 then exp_down (q * 2) - 1 else 0)"
  by pat_completeness auto
termination
proof (relation "measure (\<lambda>q. nat \<lfloor>1 / q\<rfloor>)")
  show "wf (measure (\<lambda>q::rat. nat \<lfloor>1 / q\<rfloor>))" by simp
next
  fix q :: rat
  assume q: "0 < q \<and> q < 1"
  then have "1 \<le> 1 / q" by simp
  then have pos: "1 \<le> \<lfloor>1 / q\<rfloor>"
    by (simp add: le_floor_iff)
  then have "(1::rat) \<le> of_int \<lfloor>1 / q\<rfloor>"
    by (metis of_int_le_iff of_int_1)
  moreover have "1 / q / 2 < of_int \<lfloor>1 / q\<rfloor> / 2 + 1 / 2"
    using floor_correct [of "1 / q"] by simp
  ultimately have "1 / q / 2 < of_int \<lfloor>1 / q\<rfloor>"
    by linarith
  then have "\<lfloor>1 / (q * 2)\<rfloor> < \<lfloor>1 / q\<rfloor>"
    by (simp add: floor_less_iff)
  with pos show "(q * 2, q) \<in> measure (\<lambda>q. nat \<lfloor>1 / q\<rfloor>)" by simp
qed

declare exp_up.simps [simp del] exp_down.simps [simp del]

definition exponent :: "rat \<Rightarrow> int" where
  "exponent q = (if 1 \<le> q then exp_up q else exp_down q)"

definition pow2 :: "int \<Rightarrow> rat" where
  "pow2 k = (if k \<ge> 0 then 2 ^ nat k else 1 / 2 ^ nat (- k))"

text \<open>Rounding a non-negative rational to the nearest integer, a tie going to the even one.\<close>

definition round_even :: "rat \<Rightarrow> int" where
  "round_even m =
     (if m - of_int \<lfloor>m\<rfloor> < 1 / 2 then \<lfloor>m\<rfloor>
      else if m - of_int \<lfloor>m\<rfloor> > 1 / 2 then \<lfloor>m\<rfloor> + 1
      else if even \<lfloor>m\<rfloor> then \<lfloor>m\<rfloor> else \<lfloor>m\<rfloor> + 1)"

text \<open>
  \<open>float64 q\<close>: the significand \<open>\<bar>q\<bar> / 2^(e-52)\<close> is rounded to an integer, where \<open>e\<close> is
  the exponent of \<open>\<bar>q\<bar>\<close> and at least \<open>-1022\<close>, the exponent of the subnormal numbers.
\<close>

definition ulp :: "rat \<Rightarrow> rat" where
  "ulp q = pow2 (max (exponent \<bar>q\<bar>) (- 1022) - 52)"

definition float64 :: "rat \<Rightarrow> rat" where
  "float64 q = (if q = 0 then 0 else sgn q * of_int (round_even (\<bar>q\<bar> / ulp q)) * ulp q)"

text \<open>The conversion \<open>int(x)\<close> of a \<open>float64\<close> discards the fraction.\<close>

definition float_to_int :: "rat \<Rightarrow> int" where
  "float_to_int x = (if x < 0 then - \<lfloor>- x\<rfloor> else \<lfloor>x\<rfloor>)"

text \<open>
  \<open>Duration.Hours\<close> of the \<open>time\<close> package:
  \<^verbatim>\<open>hour := d / Hour; nsec := d % Hour; return float64(hour) + float64(nsec)/(60*60*1e9)\<close>
\<close>

definition Hours :: "int \<Rightarrow> rat" where
  "Hours d =
     (let hour = quo d Hour_ns;
          nsec = rem d Hour_ns
      in float64 (float64 (of_int hour)
                  + float64 (float64 (of_int nsec) / float64 (60 * 60 * 1000000000))))"

section \<open>The directive table\<close>

text \<open>
  The loop of \<open>weekNumberFormatter\<close>:
  \<^verbatim>\<open>for start.Before(t) { week += 1; start = start.Add(WEEK) }\<close>
\<close>

function week_loop :: "Time \<Rightarrow> Time \<Rightarrow> int \<Rightarrow> int" where
  "week_loop start t week =
     (if Before start t then week_loop (Add start WEEK) t (week + 1) else week)"
  by pat_completeness auto
termination
proof (relation "measure (\<lambda>(start, t, week). nat (unixNano t - unixNano start))")
  show "wf (measure (\<lambda>(start, t, week). nat (unixNano t - unixNano start)))"
    by simp
next
  fix start t :: Time and week :: int
  assume b: "Before start t"
  have "unixNano (Add start WEEK) = unixNano start + WEEK"
    by (simp add: Add_def unixNano_def Let_def)
  moreover have "0 < WEEK"
    by (simp add: WEEK_def Hour_ns_def)
  ultimately show "((Add start WEEK, t, week + 1), (start, t, week))
      \<in> measure (\<lambda>(start, t, week). nat (unixNano t - unixNano start))"
    using b by (simp add: Before_def)
qed

declare week_loop.simps [simp del]

definition weekNumberFormatter :: "Time \<Rightarrow> string" where
  "weekNumberFormatter t =
     (let start = Date_UTC (Year t) 1 1 23 0 0 0;
          week = week_loop start t 0
      in Sprintf_0d 2 week)"

text \<open>
  The entry of \<open>%j\<close>. (The earlier revision of the package, \<open>strftime.go\<close>, has the
  same statements for \<open>%j\<close>, \<open>%U\<close> and \<open>%W\<close> in the \<open>switch\<close> of \<open>repl\<close>.)
\<close>

definition yearDayFormatter :: "Time \<Rightarrow> string" where
  "yearDayFormatter t =
     (let start = Date_UTC (Year t) 1 1 0 0 0 0;
          day = float_to_int (float64 (Hours (Sub t start) / float64 24)) + 1
      in Sprintf_0d 3 day)"

type_synonym FormatFunc = "Time \<Rightarrow> error + string"

text \<open>
  The map \<open>formats\<close>. The entries are listed in the order of the source; a Go map has no
  order, and nothing below depends on one.
\<close>

definition formats_list :: "(string \<times> FormatFunc) list" where
  "formats_list =
     [(''%a'', \<lambda>t. Inr (Time_Format t ''Mon'')),
      (''%A'', \<lambda>t. Inr (Time_Format t ''Monday'')),
      (''%b'', \<lambda>t. Inr (Time_Format t ''Jan'')),
      (''%B'', \<lambda>t. Inr (Time_Format t ''January'')),
      (''%c'', \<lambda>t. Inr (Time_Format t RFC1123)),
      (''%d'', \<lambda>t. Inr (Time_Format t ''02'')),
      (''%H'', \<lambda>t. Inr (Time_Format t ''15'')),
      (''%I'', \<lambda>t. Inr (Time_Format t ''3'')),
      (''%j'', \<lambda>t. Inr (yearDayFormatter t)),
      (''%m'', \<lambda>t. Inr (Time_Format t ''01'')),
      (''%M'', \<lambda>t. Inr (Time_Format t ''04'')),
      (''%p'', \<lambda>t. Inr (Time_Format t ''PM'')),
      (''%S'', \<lambda>t. Inr (Time_Format t ''05'')),
      (''%U'', \<lambda>t. Inr (weekNumberFormatter t)),
      (''%W'', \<lambda>t. Inr (weekNumberFormatter t)),
      (''%w'', \<lambda>t. Inr (Sprintf_0d 0 (Weekday t))),
      (''%x'', \<lambda>t. Inr (Time_Format t ''01/02/06'')),
      (''%X'', \<lambda>t. Inr (Time_Format t ''15:04:05'')),
      (''%y'', \<lambda>t. Inr (Time_Format t ''06'')),
      (''%Y'', \<lambda>t. Inr (Time_Format t ''2006'')),
      (''%Z'', \<lambda>t. Inr (Time_Format t ''MST''))]"

definition formats :: "string \<rightharpoonup> FormatFunc" where
  "formats = map_of formats_list"

section \<open>The two patterns\<close>

text \<open>
  \<open>initFormatRegexp\<close> and \<open>initFormatBackquoteRegexp\<close> write \<open>format[1:]\<close> of every key of
  \<open>formats\<close> into a character class (\<open>regexp.QuoteMeta\<close> leaves a letter as it is).
\<close>

definition format_codes :: "char list" where
  "format_codes = concat (map (\<lambda>(format, f). drop 1 format) formats_list)"

definition digit_1_9 :: "char \<Rightarrow> bool" where
  "digit_1_9 c \<longleftrightarrow> c \<in> set ''123456789''"

text \<open>
  A compiled pattern is modelled by what \<open>ReplaceAllStringFunc\<close> asks of it: the length of
  its match at the head of a string, if it matches there. Both patterns start with the byte
  \<open>%\<close> and their two alternatives begin with disjoint classes, so the leftmost-first match
  at a position is unique.

  \<open>fmtRe\<close> is \<^verbatim>\<open>%([%<codes>]|[1-9]n)\<close>.
\<close>

definition fmtRe :: "string \<Rightarrow> nat option" where
  "fmtRe s =
     (case s of
        c0 # c1 # r \<Rightarrow>
          if c0 \<noteq> CHR ''%'' then None
          else if c1 \<in> set (CHR ''%'' # format_codes) then Some 2
          else if digit_1_9 c1 \<and> (case r of c2 # r' \<Rightarrow> c2 = CHR ''n'' | [] \<Rightarrow> False) then Some 3
          else None
      | _ \<Rightarrow> None)"

text \<open>
  \<open>fmtBackquoteRe\<close> is \<^verbatim>\<open>%([^<codes>1-9]|[1-9][^n])\<close>. A negated class matches one
  character, which may be several bytes of UTF-8; the model matches its first byte. The
  bytes that follow are not \<open>%\<close> and are copied by \<open>ReplaceAllStringFunc\<close> either way, so
  the replaced string is the same.
\<close>

definition fmtBackquoteRe :: "string \<Rightarrow> nat option" where
  "fmtBackquoteRe s =
     (case s of
        c0 # c1 # r \<Rightarrow>
          if c0 \<noteq> CHR ''%'' then None
          else if c1 \<notin> set format_codes \<and> \<not> digit_1_9 c1 then Some 2
          else if digit_1_9 c1 \<and> (case r of c2 # r' \<Rightarrow> c2 \<noteq> CHR ''n'' | [] \<Rightarrow> False) then Some 3
          else None
      | _ \<Rightarrow> None)"

text \<open>
  \<open>Regexp.ReplaceAllStringFunc(src, repl)\<close>: scanning from the left, each match is replaced
  by what \<open>repl\<close> returns for it, and a byte where no match starts is copied. The callbacks
  of the package are closures that update captured variables and can panic: a callback takes
  the captured state and returns the replacement with the new state, or the panic. Neither
  pattern matches the empty string; a pattern that returned length 0 is treated as not
  matching.
\<close>

function ReplaceAllStringFunc ::
  "(string \<Rightarrow> nat option) \<Rightarrow> string \<Rightarrow> (string \<Rightarrow> 'st \<Rightarrow> error + string \<times> 'st) \<Rightarrow> 'st
     \<Rightarrow> error + string \<times> 'st" where
  "ReplaceAllStringFunc re [] repl st = Inr ([], st)"
| "ReplaceAllStringFunc re (c # cs) repl st =
     (case re (c # cs) of
        None \<Rightarrow>
          (case ReplaceAllStringFunc re cs repl st of
             Inl e \<Rightarrow> Inl e
           | Inr (out, st') \<Rightarrow> Inr (c # out, st'))
      | Some n \<Rightarrow>
          if n = 0 \<or> n > length (c # cs) then
            (case ReplaceAllStringFunc re cs repl st of
               Inl e \<Rightarrow> Inl e
             | Inr (out, st') \<Rightarrow> Inr (c # out, st'))
          else
            (case repl (take n (c # cs)) st of
               Inl e \<Rightarrow> Inl e
             | Inr (r, st1) \<Rightarrow>
                 (case ReplaceAllStringFunc re (drop n (c # cs)) repl st1 of
                    Inl e \<Rightarrow> Inl e
                  | Inr (out, st2) \<Rightarrow> Inr (r @ out, st2))))"
  by pat_completeness auto
termination
  by (relation "measure (\<lambda>(re, src, repl, st). length src)") auto

declare ReplaceAllStringFunc.simps(2) [simp del]

section \<open>The one-shot formatter\<close>

definition repl :: "string \<Rightarrow> Time \<Rightarrow> error + string" where
  "repl match t =
     (if match = ''%%'' then Inr ''%''
      else case formats match of
             Some formatFunc \<Rightarrow> formatFunc t
           | None \<Rightarrow> formatNanoForMatch match t)"

text \<open>The closure \<open>fn\<close> of \<open>Format\<close> captures nothing it changes: its state is \<open>unit\<close>.\<close>

definition Format :: "string \<Rightarrow> Time \<Rightarrow> error + string" where
  "Format format t =
     (let fn = (\<lambda>match (u::unit). case repl match t of Inl e \<Rightarrow> Inl e | Inr r \<Rightarrow> Inr (r, u))
      in case ReplaceAllStringFunc fmtRe format fn () of
           Inl e \<Rightarrow> Inl e
         | Inr (out, u) \<Rightarrow> Inr out)"



section \<open>\<open>fmt.Sprintf\<close> on a skeleton\<close>

text \<open>
  The compiled formatter hands its skeleton and the rendered directives, all strings, to
  \<open>fmt.Sprintf\<close>. The model covers the part of \<open>Sprintf\<close> that needs no flag, width,
  precision or argument index: a byte other than \<open>%\<close> is copied; \<open>%%\<close> prints \<open>%\<close>
  and takes no operand; \<open>%s\<close> and \<open>%v\<close> print the next operand; a verb that is an ASCII
  letter with no operand left prints \<^verbatim>\<open>%!x(MISSING)\<close>; a \<open>%\<close> that ends the format
  prints \<^verbatim>\<open>%!(NOVERB)\<close>; operands left over at the end are reported as
  \<^verbatim>\<open>%!(EXTRA string=..., string=...)\<close>. On any other format the result is \<open>None\<close>: the
  model says nothing about it.
\<close>

fun extra_args :: "string list \<Rightarrow> string" where
  "extra_args [] = []"
| "extra_args [a] = ''string='' @ a"
| "extra_args (a # b # as) = ''string='' @ a @ '', '' @ extra_args (b # as)"

definition check_extra :: "string list \<Rightarrow> string" where
  "check_extra args = (if args = [] then [] else ''%!(EXTRA '' @ extra_args args @ '')'')"

definition ascii_letter :: "char \<Rightarrow> bool" where
  "ascii_letter c \<longleftrightarrow>
     ((65::nat) \<le> of_char c \<and> of_char c \<le> (90::nat)) \<or> ((97::nat) \<le> of_char c \<and> of_char c \<le> (122::nat))"

fun Sprintf :: "string \<Rightarrow> string list \<Rightarrow> string option" where
  "Sprintf [] args = Some (check_extra args)"
| "Sprintf [c] args =
     (if c = CHR ''%'' then Some (''%!(NOVERB)'' @ check_extra args)
      else map_option ((#) c) (Sprintf [] args))"
| "Sprintf (c # verb # rest) args =
     (if c \<noteq> CHR ''%'' then map_option ((#) c) (Sprintf (verb # rest) args)
      else if verb = CHR ''%'' then map_option ((#) (CHR ''%'')) (Sprintf rest args)
      else if verb = CHR ''s'' \<or> verb = CHR ''v'' then
        (case args of
           [] \<Rightarrow> map_option ((@) (''%!'' @ [verb] @ ''(MISSING)'')) (Sprintf rest [])
         | a # as \<Rightarrow> map_option ((@) a) (Sprintf rest as))
      else if ascii_letter verb \<and> args = [] then
        map_option ((@) (''%!'' @ [verb] @ ''(MISSING)'')) (Sprintf rest [])
      else None)"

section \<open>The compiled formatter\<close>

text \<open>
  The field \<open>formatFunc\<close> of the source is a closure over the slice \<open>funs\<close>; it calls each
  function in order and collects the results.
\<close>

record Formatter =
  format :: string
  strFormat :: string
  formatFunc :: "Time \<Rightarrow> error + string list"

fun call_funs :: "FormatFunc list \<Rightarrow> Time \<Rightarrow> error + string list" where
  "call_funs [] t = Inr []"
| "call_funs (f # funs) t =
     (case f t of
        Inl e \<Rightarrow> Inl e
      | Inr r \<Rightarrow> (case call_funs funs t of Inl e \<Rightarrow> Inl e | Inr rs \<Rightarrow> Inr (r # rs)))"

text \<open>
  The three closures of \<open>NewFormatter\<close>: \<open>f\<close> changes nothing, \<open>f1\<close> counts in \<open>size\<close>,
  \<open>f2\<close> appends to \<open>funs\<close>.
\<close>

definition NewFormatter_f :: "string \<Rightarrow> unit \<Rightarrow> error + string \<times> unit" where
  "NewFormatter_f match u = (if match = ''%%'' then Inr (match, u) else Inr (''%'' @ match, u))"

definition NewFormatter_f1 :: "string \<Rightarrow> nat \<Rightarrow> error + string \<times> nat" where
  "NewFormatter_f1 match sz = (if match = ''%%'' then Inr (match, sz) else Inr (''%s'', sz + 1))"

definition NewFormatter_f2 :: "string \<Rightarrow> FormatFunc list \<Rightarrow> error + string \<times> FormatFunc list" where
  "NewFormatter_f2 match funs =
     (if match = ''%%'' then Inr (match, funs)
      else case formats match of
             Some f \<Rightarrow> Inr (match, funs @ [f])
           | None \<Rightarrow> Inr (match, funs @ [\<lambda>t. formatNanoForMatch match t]))"

definition NewFormatter :: "string \<Rightarrow> error + Formatter" where
  "NewFormatter format0 =
     (case ReplaceAllStringFunc fmtBackquoteRe format0 NewFormatter_f () of
        Inl e \<Rightarrow> Inl e
      | Inr (strFormat0, u) \<Rightarrow>
     (case ReplaceAllStringFunc fmtRe strFormat0 NewFormatter_f1 0 of
        Inl e \<Rightarrow> Inl e
      | Inr (strFormat1, sz) \<Rightarrow>
     (case ReplaceAllStringFunc fmtRe format0 NewFormatter_f2 [] of
        Inl e \<Rightarrow> Inl e
      | Inr (unused, funs) \<Rightarrow>
          Inr \<lparr>format = format0, strFormat = strFormat1, formatFunc = call_funs funs\<rparr>)))"

definition Formatter_Format :: "Formatter \<Rightarrow> Time \<Rightarrow> error + string option" where
  "Formatter_Format self t =
     (case formatFunc self t of
        Inl e \<Rightarrow> Inl e
      | Inr args \<Rightarrow> Inr (Sprintf (strFormat self) args))"


text \<open>The two paths, from a template to the rendered string.\<close>

definition compiled_Format :: "string \<Rightarrow> Time \<Rightarrow> error + string option" where
  "compiled_Format template t =
     (case NewFormatter template of
        Inl e \<Rightarrow> Inl e
      | Inr formatter \<Rightarrow> Formatter_Format formatter t)"

section \<open>The statements of the specification\<close>

text \<open>The reference instant of the package's tests, 2009-11-10T23:01:02.000000003Z.\<close>

definition testTime :: Time where
  "testTime = Date_UTC 2009 11 10 23 1 2 3"

text \<open>
  Week number, in the words of the specification: the accumulator starts at January 1,
  23:00 UTC of the timestamp's year and moves by seven days with each addition; the count is
  the number of additions after which it is no longer before the timestamp.
\<close>

definition accumulator :: "Time \<Rightarrow> nat \<Rightarrow> Time" where
  "accumulator t k = ((\<lambda>start. Add start WEEK) ^^ k) (Date_UTC (Year t) 1 1 23 0 0 0)"

definition additions_needed :: "Time \<Rightarrow> nat" where
  "additions_needed t = (LEAST k. \<not> Before (accumulator t k) t)"

text \<open>
  Day of year, in the words of the specification: the number of whole 24-hour periods
  between midnight (UTC) of January 1 of the timestamp's year and the timestamp, plus 1,
  padded with zeros to 3 digits.
\<close>

definition whole_days :: "Time \<Rightarrow> int" where
  "whole_days t = quo (Sub t (Date_UTC (Year t) 1 1 0 0 0 0)) (24 * Hour_ns)"

definition day_of_year_spec :: "Time \<Rightarrow> string" where
  "day_of_year_spec t = Sprintf_0d 3 (whole_days t + 1)"

text \<open>2009-12-31T23:59:59.999999999Z, the last nanosecond of a year of 365 days.\<close>

definition lastNano2009 :: Time where
  "lastNano2009 = Date_UTC 2009 12 31 23 59 59 999999999"

text \<open>
  The scan of \<open>fmtRe\<close> over a template consumes all of it when it does not stop on a
  \<open>%\<close> that is the last byte and belongs to no match.
\<close>

function consumes_all :: "string \<Rightarrow> bool" where
  "consumes_all [] = True"
| "consumes_all (c # cs) =
     (case fmtRe (c # cs) of
        Some n \<Rightarrow> consumes_all (drop (n - 1) cs)
      | None \<Rightarrow> if cs = [] then c \<noteq> CHR ''%'' else consumes_all cs)"
  by pat_completeness auto
termination
  by (relation "measure length") auto

declare consumes_all.simps(2) [simp del]

text \<open>
  The placeholders of a skeleton as \<open>fmt.Sprintf\<close> reads it from the left: \<open>%%\<close> is a
  literal percent sign, \<open>%s\<close> is a placeholder.
\<close>

fun count_placeholders :: "string \<Rightarrow> nat" where
  "count_placeholders (c # verb # rest) =
     (if c = CHR ''%'' \<and> verb = CHR ''%'' then count_placeholders rest
      else if c = CHR ''%'' \<and> verb = CHR ''s'' then Suc (count_placeholders rest)
      else count_placeholders (verb # rest))"
| "count_placeholders s = 0"

text \<open>
  Templates on which the escaping pass of \<open>NewFormatter\<close> is complete: every \<open>%\<close> starts
  \<open>%%\<close>, a directive, or an unknown sequence (\<open>%\<close> and a byte that is no code and no
  digit, or \<open>%\<close>, a digit and a byte other than \<open>n\<close> and \<open>%\<close>) that
  \<open>fmtBackquoteRe\<close> matches as a whole.
\<close>

fun escapes_all :: "string \<Rightarrow> bool" where
  "escapes_all [] = True"
| "escapes_all [c] = (c \<noteq> CHR ''%'')"
| "escapes_all (c # c1 # r) =
     (if c \<noteq> CHR ''%'' then escapes_all (c1 # r)
      else if c1 \<in> set (CHR ''%'' # format_codes) then escapes_all r
      else if digit_1_9 c1 then
        (case r of [] \<Rightarrow> False | c2 # r' \<Rightarrow> c2 \<noteq> CHR ''%'' \<and> escapes_all r')
      else escapes_all r)"

text \<open>
  What \<open>NewFormatter\<close> and the two \<open>Format\<close> functions do on a template, with the
  counter and the function slice of the closures at any starting value: the three passes
  succeed, the skeleton has one placeholder for each appended function, and \<open>Sprintf\<close>
  prints what the one-shot formatter returns.
\<close>

definition compiles_as :: "string \<Rightarrow> Time \<Rightarrow> nat \<Rightarrow> FormatFunc list \<Rightarrow> bool" where
  "compiles_as s t sz funs0 \<longleftrightarrow>
     (\<exists>s0 s1 funs args out.
        ReplaceAllStringFunc fmtBackquoteRe s NewFormatter_f () = Inr (s0, ()) \<and>
        ReplaceAllStringFunc fmtRe s0 NewFormatter_f1 sz = Inr (s1, sz + length funs) \<and>
        ReplaceAllStringFunc fmtRe s NewFormatter_f2 funs0 = Inr (s, funs0 @ funs) \<and>
        call_funs funs t = Inr args \<and> Format s t = Inr out \<and> Sprintf s1 args = Some out \<and>
        count_placeholders s1 = length funs)"

text \<open>The last \<open>k\<close> decimal digits of \<open>u\<close>, the most significant first.\<close>

fun last_digits :: "nat \<Rightarrow> nat \<Rightarrow> string" where
  "last_digits 0 u = []"
| "last_digits (Suc k) u = last_digits k (u div 10) @ [digit_char (u mod 10)]"

section \<open>Evaluation at the reference instant\<close>

lemma digit_char_eval:
  "digit_char 0 = CHR ''0''" "digit_char 1 = CHR ''1''" "digit_char 2 = CHR ''2''"
  "digit_char 3 = CHR ''3''" "digit_char 4 = CHR ''4''" "digit_char 5 = CHR ''5''"
  "digit_char 6 = CHR ''6''" "digit_char 7 = CHR ''7''" "digit_char 8 = CHR ''8''"
  "digit_char 9 = CHR ''9''" "digit_char (Suc 0) = CHR ''1''"
  by (simp_all add: digit_char_def char_of_def bit_iff_odd_drop_bit drop_bit_eq_div)

lemma floor_rat_numeral: "\<lfloor>(numeral a :: rat) / numeral b\<rfloor> = numeral a div numeral b"
  using floor_divide_of_int_eq [of "numeral a" "numeral b", where ?'a = rat] by simp

lemmas float_eval = float64_def ulp_def exponent_def exp_up.simps exp_down.simps pow2_def
  round_even_def floor_rat_numeral

lemmas decimal_eval = Sprintf_0d_def appendInt_def pad0_def decimal.simps digit_char_eval

lemma testTime_eq:
  "testTime = \<lparr>unixSec = 1257894062, nsec = 3, zoneName = ''UTC'', zoneOffset = 0\<rparr>"
  unfolding testTime_def Date_UTC_def days_from_civil_def Let_def by simp

lemma testTime_civil: "civil (localSec testTime div 86400) = (2009, 11, 10)"
  unfolding testTime_eq localSec_def civil_def Let_def by simp

lemma testTime_fields:
  "Year testTime = 2009" "Month testTime = 11" "Day testTime = 10" "Hour testTime = 23"
  "Minute testTime = 1" "Second testTime = 2" "Weekday testTime = 2" "Nanosecond testTime = 3"
  "zoneName testTime = ''UTC''"
  by (simp_all add: Year_def Month_def Day_def testTime_civil)
     (simp_all add: testTime_eq Hour_def Minute_def Second_def Weekday_def Nanosecond_def
        localSec_def)

lemmas layout_eval = Time_Format_def nextStdChunk_def hasPrefix_def startsWithLowerCase_def
  RFC1123_def render_chunk_def testTime_fields decimal_eval Month_String_def Weekday_String_def
  longMonthNames_def longDayNames_def

lemma testTime_layouts:
  "Time_Format testTime ''Mon'' = ''Tue''"
  "Time_Format testTime ''Monday'' = ''Tuesday''"
  "Time_Format testTime ''Jan'' = ''Nov''"
  "Time_Format testTime ''January'' = ''November''"
  "Time_Format testTime RFC1123 = ''Tue, 10 Nov 2009 23:01:02 UTC''"
  "Time_Format testTime ''02'' = ''10''"
  "Time_Format testTime ''15'' = ''23''"
  "Time_Format testTime ''3'' = ''11''"
  "Time_Format testTime ''01'' = ''11''"
  "Time_Format testTime ''04'' = ''01''"
  "Time_Format testTime ''PM'' = ''PM''"
  "Time_Format testTime ''05'' = ''02''"
  "Time_Format testTime ''01/02/06'' = ''11/10/09''"
  "Time_Format testTime ''15:04:05'' = ''23:01:02''"
  "Time_Format testTime ''06'' = ''09''"
  "Time_Format testTime ''2006'' = ''2009''"
  "Time_Format testTime ''MST'' = ''UTC''"
  by (simp_all add: layout_eval)

lemma testTime_yearDay: "yearDayFormatter testTime = ''314''"
proof -
  have start: "Date_UTC (Year testTime) 1 1 0 0 0 0
      = \<lparr>unixSec = 1230768000, nsec = 0, zoneName = ''UTC'', zoneOffset = 0\<rparr>"
    unfolding testTime_fields Date_UTC_def days_from_civil_def Let_def by simp
  have sub: "Sub testTime (Date_UTC (Year testTime) 1 1 0 0 0 0) = 27126062000000003"
    unfolding start unfolding testTime_eq Sub_def unixNano_def Let_def by simp
  have h: "Hours 27126062000000003 = 4142419525662875 / 549755813888"
    unfolding Hours_def Let_def by (simp add: float_eval quo_def rem_def Hour_ns_def)
  have d: "float64 (4142419525662875 / 549755813888 / float64 24)
      = 5523226034217167 / 17592186044416"
    by (simp add: float_eval)
  show ?thesis
    unfolding yearDayFormatter_def Let_def sub h d
    by (simp add: float_to_int_def floor_rat_numeral decimal_eval)
qed

lemma testTime_weekNumber: "weekNumberFormatter testTime = ''45''"
proof -
  have start: "Date_UTC (Year testTime) 1 1 23 0 0 0
      = \<lparr>unixSec = 1230850800, nsec = 0, zoneName = ''UTC'', zoneOffset = 0\<rparr>"
    unfolding testTime_fields Date_UTC_def days_from_civil_def Let_def by simp
  have "week_loop \<lparr>unixSec = 1230850800, nsec = 0, zoneName = ''UTC'', zoneOffset = 0\<rparr>
      testTime 0 = 45"
    unfolding testTime_eq
    by (simp add: week_loop.simps Before_def Add_def unixNano_def WEEK_def Hour_ns_def)
  then show ?thesis
    unfolding weekNumberFormatter_def Let_def start by (simp add: decimal_eval)
qed

section \<open>The one-shot formatter never panics\<close>

lemma format_codes_eq: "format_codes = ''aAbBcdHIjmMpSUWwxXyYZ''"
  by (simp add: format_codes_def formats_list_def)

lemma fmtRe_SomeD: "fmtRe s = Some n \<Longrightarrow> (n = 2 \<or> n = 3) \<and> n \<le> length s"
  by (auto simp: fmtRe_def split: list.splits if_splits)

lemma fmtBackquoteRe_SomeD: "fmtBackquoteRe s = Some n \<Longrightarrow> (n = 2 \<or> n = 3) \<and> n \<le> length s"
  by (auto simp: fmtBackquoteRe_def split: list.splits if_splits)

lemma formats_total: "formats m = Some f \<Longrightarrow> \<exists>r. f t = Inr r"
  by (auto simp: formats_def formats_list_def split: if_splits)

lemma formatNano_no_trim: "0 \<le> n \<Longrightarrow> \<exists>r. formatNano ns n False = Inr r"
  by (simp add: formatNano_def Let_def)

lemma formatNanoForMatch_total: "2 \<le> length m \<Longrightarrow> \<exists>r. formatNanoForMatch m t = Inr r"
  by (simp add: formatNanoForMatch_def Let_def formatNano_no_trim)

lemma repl_total: "2 \<le> length m \<Longrightarrow> \<exists>r. repl m t = Inr r"
  by (auto simp: repl_def formats_total formatNanoForMatch_total split: option.splits)

lemma Format_Nil: "Format [] t = Inr []"
  by (simp add: Format_def)

lemma Format_Cons:
  "Format (c # cs) t =
     (case fmtRe (c # cs) of
        None \<Rightarrow> (case Format cs t of Inl e \<Rightarrow> Inl e | Inr out \<Rightarrow> Inr (c # out))
      | Some n \<Rightarrow>
          (case repl (take n (c # cs)) t of
             Inl e \<Rightarrow> Inl e
           | Inr r \<Rightarrow> (case Format (drop n (c # cs)) t of Inl e \<Rightarrow> Inl e | Inr out \<Rightarrow> Inr (r @ out))))"
proof (cases "fmtRe (c # cs)")
  case None
  then show ?thesis
    by (simp add: Format_def ReplaceAllStringFunc.simps(2) split: sum.splits)
next
  case (Some n)
  then have "\<not> (n = 0 \<or> n > length (c # cs))"
    using fmtRe_SomeD by fastforce
  with Some show ?thesis
    by (simp add: Format_def ReplaceAllStringFunc.simps(2) split: sum.splits)
qed

lemma Format_total: "\<exists>out. Format s t = Inr out"
proof (induction s rule: length_induct)
  case (1 s)
  show ?case
  proof (cases s)
    case Nil
    then show ?thesis by (simp add: Format_Nil)
  next
    case (Cons c cs)
    show ?thesis
    proof (cases "fmtRe (c # cs)")
      case None
      moreover obtain out where "Format cs t = Inr out"
        using 1 Cons by auto
      ultimately show ?thesis
        using Cons by (simp add: Format_Cons)
    next
      case (Some n)
      then have n: "(n = 2 \<or> n = 3) \<and> n \<le> length (c # cs)"
        by (rule fmtRe_SomeD)
      then obtain r where r: "repl (take n (c # cs)) t = Inr r"
        using repl_total [of "take n (c # cs)" t] by auto
      have "length (drop n (c # cs)) < length s"
        using n Cons by auto
      then obtain out where "Format (drop n (c # cs)) t = Inr out"
        using 1 by blast
      with Some r show ?thesis
        using Cons by (simp add: Format_Cons)
    qed
  qed
qed


lemma Format_single:
  assumes "c \<in> set (CHR ''%'' # format_codes)"
  shows "Format [CHR ''%'', c] t = repl [CHR ''%'', c] t"
proof -
  have "fmtRe [CHR ''%'', c] = Some 2"
    using assms by (simp add: fmtRe_def)
  then show ?thesis
    by (simp add: Format_Cons Format_Nil split: sum.splits)
qed

lemma Format_nano:
  assumes "digit_1_9 d"
  shows "Format [CHR ''%'', d, CHR ''n''] t = repl [CHR ''%'', d, CHR ''n''] t"
proof -
  have "d \<notin> set (CHR ''%'' # format_codes)"
    using assms by (auto simp: digit_1_9_def format_codes_eq)
  then have "fmtRe [CHR ''%'', d, CHR ''n''] = Some 3"
    using assms by (simp add: fmtRe_def)
  then show ?thesis
    by (simp add: Format_Cons Format_Nil split: sum.splits)
qed

section \<open>Golden values\<close>

text \<open>
  C3. At the reference instant 2009-11-10T23:01:02.000000003Z every single-letter directive
  renders its documented value: in particular \<open>%Y\<close> gives 2009, \<open>%j\<close> gives 314, \<open>%w\<close>
  gives 2, \<open>%U\<close> and \<open>%W\<close> give 45 and \<open>%c\<close> gives the RFC 1123 form of the instant.
\<close>

theorem golden_values:
  "Format ''%a'' testTime = Inr ''Tue'' \<and>
   Format ''%A'' testTime = Inr ''Tuesday'' \<and>
   Format ''%b'' testTime = Inr ''Nov'' \<and>
   Format ''%B'' testTime = Inr ''November'' \<and>
   Format ''%c'' testTime = Inr ''Tue, 10 Nov 2009 23:01:02 UTC'' \<and>
   Format ''%d'' testTime = Inr ''10'' \<and>
   Format ''%H'' testTime = Inr ''23'' \<and>
   Format ''%I'' testTime = Inr ''11'' \<and>
   Format ''%j'' testTime = Inr ''314'' \<and>
   Format ''%m'' testTime = Inr ''11'' \<and>
   Format ''%M'' testTime = Inr ''01'' \<and>
   Format ''%p'' testTime = Inr ''PM'' \<and>
   Format ''%S'' testTime = Inr ''02'' \<and>
   Format ''%U'' testTime = Inr ''45'' \<and>
   Format ''%w'' testTime = Inr ''2'' \<and>
   Format ''%W'' testTime = Inr ''45'' \<and>
   Format ''%x'' testTime = Inr ''11/10/09'' \<and>
   Format ''%X'' testTime = Inr ''23:01:02'' \<and>
   Format ''%y'' testTime = Inr ''09'' \<and>
   Format ''%Y'' testTime = Inr ''2009'' \<and>
   Format ''%Z'' testTime = Inr ''UTC''"
  by (simp add: Format_single format_codes_eq repl_def formats_def formats_list_def
      testTime_layouts testTime_yearDay testTime_weekNumber testTime_fields decimal_eval)

section \<open>Literal percent signs at the end of a template\<close>

lemma fmtRe_append_Some: "fmtRe s = Some n \<Longrightarrow> fmtRe (s @ y) = Some n"
  by (auto simp: fmtRe_def split: list.splits if_splits)

lemma fmtRe_append_None:
  "fmtRe (c # d # cs) = None \<Longrightarrow> fmtRe ((c # d # cs) @ CHR ''%'' # y) = None"
  by (auto simp: fmtRe_def split: list.splits if_splits)

lemma fmtRe_not_percent: "c \<noteq> CHR ''%'' \<Longrightarrow> fmtRe (c # y) = None"
  by (auto simp: fmtRe_def split: list.splits)

lemma Format_append:
  "consumes_all s \<Longrightarrow>
   Format (s @ CHR ''%'' # y) t =
     (case Format s t of
        Inl e \<Rightarrow> Inl e
      | Inr out \<Rightarrow> (case Format (CHR ''%'' # y) t of Inl e \<Rightarrow> Inl e | Inr out' \<Rightarrow> Inr (out @ out')))"
proof (induction s rule: length_induct)
  case (1 s)
  show ?case
  proof (cases s)
    case Nil
    then show ?thesis
      by (simp add: Format_Nil split: sum.splits)
  next
    case (Cons c cs)
    show ?thesis
    proof (cases "fmtRe (c # cs)")
      case (Some n)
      then have n: "(n = 2 \<or> n = 3) \<and> n \<le> length (c # cs)"
        by (rule fmtRe_SomeD)
      then have d: "drop n (c # cs) = drop (n - 1) cs"
        by (cases n) auto
      have "consumes_all (drop n (c # cs))"
        using "1.prems" Cons Some d by (simp add: consumes_all.simps(2))
      moreover have "length (drop n (c # cs)) < length s"
        using n Cons by auto
      ultimately have ih: "Format (drop n (c # cs) @ CHR ''%'' # y) t =
          (case Format (drop n (c # cs)) t of
             Inl e \<Rightarrow> Inl e
           | Inr out \<Rightarrow> (case Format (CHR ''%'' # y) t of Inl e \<Rightarrow> Inl e | Inr out' \<Rightarrow> Inr (out @ out')))"
        using "1.IH" by blast
      have "fmtRe (c # cs @ CHR ''%'' # y) = Some n"
        using fmtRe_append_Some [OF Some, of "CHR ''%'' # y"] by simp
      moreover have "take n (c # cs @ CHR ''%'' # y) = take n (c # cs)"
        and "drop n (c # cs @ CHR ''%'' # y) = drop n (c # cs) @ CHR ''%'' # y"
        using n by (cases n; simp)+
      ultimately show ?thesis
        using Cons Some ih by (simp add: Format_Cons split: sum.splits)
    next
      case None
      show ?thesis
      proof (cases cs)
        case Nil
        then have "c \<noteq> CHR ''%''"
          using "1.prems" Cons None by (simp add: consumes_all.simps(2))
        then show ?thesis
          using Cons Nil by (simp add: Format_Cons [of c] Format_Nil fmtRe_not_percent split: sum.splits)
      next
        case (Cons d ds)
        then have "consumes_all cs"
          using "1.prems" \<open>s = c # cs\<close> None by (simp add: consumes_all.simps(2))
        then have ih: "Format (cs @ CHR ''%'' # y) t =
          (case Format cs t of
             Inl e \<Rightarrow> Inl e
           | Inr out \<Rightarrow> (case Format (CHR ''%'' # y) t of Inl e \<Rightarrow> Inl e | Inr out' \<Rightarrow> Inr (out @ out')))"
          using "1.IH" \<open>s = c # cs\<close> by simp
        have "fmtRe (c # cs @ CHR ''%'' # y) = None"
          using fmtRe_append_None [of c d ds y] None Cons by simp
        then show ?thesis
          using \<open>s = c # cs\<close> None ih by (simp add: Format_Cons [of c] split: sum.splits)
      qed
    qed
  qed
qed

text \<open>
  C10. The one-shot \<open>Format\<close> copies a \<open>%\<close> that begins no match: for a template \<open>s\<close>
  whose scan consumes all of \<open>s\<close>, appending a bare \<open>%\<close> appends \<open>%\<close> to the output, and
  appending \<open>%\<close> and a digit 1 to 9 appends those two bytes; more generally a \<open>%\<close> at which
  \<open>fmtRe\<close> does not match is copied and the scan goes on behind it.
\<close>

theorem trailing_percent_copied:
  assumes "consumes_all s"
  shows "\<exists>out. Format s t = Inr out \<and> Format (s @ ''%'') t = Inr (out @ ''%'') \<and>
     (\<forall>d. digit_1_9 d \<longrightarrow> Format (s @ [CHR ''%'', d]) t = Inr (out @ [CHR ''%'', d])) \<and>
     (\<forall>y out'. fmtRe (CHR ''%'' # y) = None \<and> Format y t = Inr out'
        \<longrightarrow> Format (s @ CHR ''%'' # y) t = Inr (out @ CHR ''%'' # out'))"
proof -
  obtain out where out: "Format s t = Inr out"
    using Format_total by blast
  have "Format ''%'' t = Inr ''%''"
    by (simp add: Format_Cons Format_Nil fmtRe_def)
  moreover have "Format [CHR ''%'', d] t = Inr [CHR ''%'', d]" if "digit_1_9 d" for d
    using that by (auto simp: Format_Cons Format_Nil fmtRe_def format_codes_eq digit_1_9_def)
  moreover have "Format (s @ CHR ''%'' # y) t = Inr (out @ CHR ''%'' # out')"
    if "fmtRe (CHR ''%'' # y) = None" and "Format y t = Inr out'" for y out'
    using that out Format_append [OF assms, of y t] by (simp add: Format_Cons)
  ultimately show ?thesis
    using out Format_append [OF assms, of "[]" t] Format_append [OF assms, of "[d]" t for d]
    by simp
qed

theorem trailing_percent_copied_witness:
  "consumes_all ''%Y'' \<and> Format (''%Y'' @ ''%'') testTime = Inr (''2009'' @ ''%'') \<and>
   digit_1_9 (CHR ''5'') \<and> Format (''%Y'' @ ''%5'') testTime = Inr (''2009'' @ ''%5'') \<and>
   fmtRe ''%g'' = None \<and> Format ''g'' testTime = Inr ''g'' \<and>
   Format (''%Y'' @ ''%g'') testTime = Inr (''2009'' @ ''%g'')"
proof -
  have c: "consumes_all ''%Y''"
    by (simp add: consumes_all.simps(2) fmtRe_def format_codes_eq)
  have y: "Format ''%Y'' testTime = Inr ''2009''"
    by (simp add: Format_single format_codes_eq repl_def formats_def formats_list_def
        testTime_layouts)
  have d: "digit_1_9 (CHR ''5'')"
    by (simp add: digit_1_9_def)
  have g: "fmtRe ''%g'' = None" "Format ''g'' testTime = Inr ''g''"
    by (simp_all add: fmtRe_def format_codes_eq digit_1_9_def Format_Cons Format_Nil)
  obtain out where out: "Format ''%Y'' testTime = Inr out"
    and "Format (''%Y'' @ ''%'') testTime = Inr (out @ ''%'')"
    and "\<forall>d. digit_1_9 d \<longrightarrow> Format (''%Y'' @ [CHR ''%'', d]) testTime = Inr (out @ [CHR ''%'', d])"
    and "\<forall>y out'. fmtRe (CHR ''%'' # y) = None \<and> Format y testTime = Inr out'
        \<longrightarrow> Format (''%Y'' @ CHR ''%'' # y) testTime = Inr (out @ CHR ''%'' # out')"
    using trailing_percent_copied [OF c, of testTime] by blast
  moreover have "out = ''2009''"
    using out y by simp
  ultimately show ?thesis
    using c d g by simp
qed

section \<open>The compiled formatter never panics\<close>




section \<open>Writing to a sink\<close>


section \<open>Fractional seconds\<close>

lemma fill_buf_last_digits:
  "start \<le> length buf \<Longrightarrow> fill_buf start u buf = last_digits start u @ drop start buf"
proof (induction start arbitrary: u buf)
  case 0
  then show ?case by simp
next
  case (Suc start)
  then have lt: "start < length buf" by simp
  have "fill_buf (Suc start) u buf = fill_buf start (u div 10) (buf[start := digit_char (u mod 10)])"
    by simp
  also have "\<dots> = last_digits start (u div 10) @ drop start (buf[start := digit_char (u mod 10)])"
    using Suc.IH [of "buf[start := digit_char (u mod 10)]" "u div 10"] lt by simp
  also have "drop start (buf[start := digit_char (u mod 10)]) = digit_char (u mod 10) # drop (Suc start) buf"
    using lt by (simp add: upd_conv_take_nth_drop)
  finally show ?case by simp
qed

lemma pad0_decimal_zero: "0 < k \<Longrightarrow> pad0 k (decimal 0) = replicate k (CHR ''0'')"
  by (cases k) (simp_all add: pad0_def decimal.simps digit_char_eval replicate_append_same)

lemma last_digits_pad0: "0 < k \<Longrightarrow> u < 10 ^ k \<Longrightarrow> last_digits k u = pad0 k (decimal u)"
proof (induction k arbitrary: u)
  case 0
  then show ?case by simp
next
  case (Suc k)
  show ?case
  proof (cases "k = 0")
    case True
    then show ?thesis
      using Suc.prems by (simp add: pad0_def decimal.simps [of u])
  next
    case False
    then have k: "0 < k" by simp
    have "u div 10 < 10 ^ k"
      using Suc.prems by (simp add: less_mult_imp_div_less mult.commute)
    then have ih: "last_digits k (u div 10) = pad0 k (decimal (u div 10))"
      using Suc.IH k by simp
    show ?thesis
    proof (cases "u < 10")
      case True
      then show ?thesis
        using ih k by (simp add: pad0_decimal_zero) (simp add: pad0_def decimal.simps [of u] Suc_diff_le)
    next
      case False
      then show ?thesis
        using ih by (simp add: pad0_def decimal.simps [of u])
    qed
  qed
qed

lemma formatNano_spec:
  assumes "ns < 1000000000" and "0 \<le> n"
  shows "formatNano ns n False = Inr (take (nat (min n 9)) (pad0 9 (decimal ns)))"
proof -
  have "fill_buf 9 ns (replicate 9 (CHR 0x00)) = last_digits 9 ns"
    using fill_buf_last_digits [of 9 "replicate 9 (CHR 0x00)" ns] by simp
  also have "\<dots> = pad0 9 (decimal ns)"
    using assms(1) by (simp add: last_digits_pad0)
  finally show ?thesis
    using assms(2) by (simp add: formatNano_def Let_def min_def)
qed

lemma length_decimal_le: "u < 10 ^ k \<Longrightarrow> 0 < k \<Longrightarrow> length (decimal u) \<le> k"
proof (induction u arbitrary: k rule: decimal.induct)
  case (1 n)
  show ?case
  proof (cases "n < 10")
    case True
    then show ?thesis using 1 by (simp add: decimal.simps [of n])
  next
    case False
    then obtain j where j: "k = Suc j" using 1 by (cases k) auto
    have "j \<noteq> 0"
    proof
      assume "j = 0"
      then have "n < 10" using "1.prems" j by simp
      then show False using False by simp
    qed
    moreover have "n div 10 < 10 ^ j"
      using 1 j by (simp add: less_mult_imp_div_less mult.commute)
    ultimately have "length (decimal (n div 10)) \<le> j"
      using 1 False by simp
    then show ?thesis using False j by (simp add: decimal.simps [of n])
  qed
qed

lemma length_pad0: "length s \<le> w \<Longrightarrow> length (pad0 w s) = w"
  by (simp add: pad0_def)

lemma replicate_numeral_unfold: "replicate (numeral k) x = x # replicate (pred_numeral k) x"
  by (simp add: numeral_eq_Suc)

lemma digit_char_1_9:
  assumes "1 \<le> N" and "N \<le> 9"
  shows "digit_1_9 (digit_char N) \<and> (of_char (digit_char N) :: nat) = N + 48"
proof -
  have "N = 1 \<or> N = 2 \<or> N = 3 \<or> N = 4 \<or> N = 5 \<or> N = 6 \<or> N = 7 \<or> N = 8 \<or> N = 9"
    using assms by arith
  then show ?thesis
    by (elim disjE) (simp_all add: digit_char_eval digit_1_9_def)
qed

lemma repl_nano:
  assumes "nsec t < 1000000000" and "1 \<le> N" and "N \<le> 9"
  shows "repl [CHR ''%'', digit_char N, CHR ''n''] t
    = Inr (take N (pad0 9 (decimal (Nanosecond t))))"
proof -
  have "formats [CHR ''%'', digit_char N, CHR ''n''] = None"
    by (simp add: formats_def formats_list_def)
  moreover have "int ((of_char (digit_char N) + 256 - 48) mod 256) = int N"
    using digit_char_1_9 [OF assms(2,3)] assms(3) by simp
  ultimately show ?thesis
    using assms formatNano_spec [of "Nanosecond t" "int N"]
    by (simp add: repl_def formatNanoForMatch_def Nanosecond_def min_def)
qed

text \<open>
  C6. For a digit \<open>N\<close> from 1 to 9 the directive \<open>%Nn\<close> renders the nanoseconds of the
  timestamp as 9 decimal digits, padded with zeros on the left, cut to the first \<open>N\<close> digits,
  trailing zeros kept; a width above 9 is clamped to 9; at the reference instant \<open>%3n\<close>,
  \<open>%6n\<close> and \<open>%9n\<close> give 000, 000000 and 000000003.
\<close>

theorem fractional_second_directive:
  assumes "wf_Time t" and "1 \<le> N" and "N \<le> 9"
  shows "Format [CHR ''%'', digit_char N, CHR ''n''] t
      = Inr (take N (pad0 9 (decimal (Nanosecond t)))) \<and>
    length (take N (pad0 9 (decimal (Nanosecond t)))) = N \<and>
    (\<forall>n. 9 < n \<longrightarrow> formatNano (Nanosecond t) n False = formatNano (Nanosecond t) 9 False) \<and>
    Format ''%3n'' testTime = Inr ''000'' \<and>
    Format ''%6n'' testTime = Inr ''000000'' \<and>
    Format ''%9n'' testTime = Inr ''000000003''"
proof -
  have ns: "nsec t < 1000000000"
    using assms(1) by (simp add: wf_Time_def)
  have "Format [CHR ''%'', digit_char N, CHR ''n''] t
      = Inr (take N (pad0 9 (decimal (Nanosecond t))))"
    using digit_char_1_9 [OF assms(2,3)] repl_nano [OF ns assms(2,3)] by (simp add: Format_nano)
  moreover have "length (decimal (Nanosecond t)) \<le> 9"
    using ns length_decimal_le [of "Nanosecond t" 9] by (simp add: Nanosecond_def)
  then have "length (take N (pad0 9 (decimal (Nanosecond t)))) = N"
    using assms(3) by (simp add: length_pad0)
  moreover have "formatNano (Nanosecond t) n False = formatNano (Nanosecond t) 9 False"
    if "9 < n" for n
    using that by (simp add: formatNano_def Let_def)
  moreover have "nsec testTime < 1000000000"
    by (simp add: testTime_eq)
  then have "Format ''%3n'' testTime = Inr ''000''"
    and "Format ''%6n'' testTime = Inr ''000000''"
    and "Format ''%9n'' testTime = Inr ''000000003''"
    using repl_nano [of testTime 3] repl_nano [of testTime 6] repl_nano [of testTime 9]
    by (simp_all add: Format_nano digit_1_9_def digit_char_eval testTime_fields decimal_eval
        replicate_numeral_unfold)
  ultimately show ?thesis
    by blast
qed

theorem fractional_second_directive_witness:
  "wf_Time testTime \<and> (1::nat) \<le> 3 \<and> (3::nat) \<le> 9 \<and>
   Format [CHR ''%'', digit_char 3, CHR ''n''] testTime
     = Inr (take 3 (pad0 9 (decimal (Nanosecond testTime)))) \<and>
   (9::int) < 12 \<and>
   formatNano (Nanosecond testTime) 12 False = formatNano (Nanosecond testTime) 9 False"
proof -
  have w: "wf_Time testTime"
    by (simp add: wf_Time_def testTime_eq)
  show ?thesis
    using w fractional_second_directive [OF w, of 3] by simp
qed

section \<open>The compiled formatter on templates with a stray percent sign\<close>

lemmas scan_eval = ReplaceAllStringFunc.simps(2) fmtRe_def fmtBackquoteRe_def format_codes_eq
  digit_1_9_def NewFormatter_f_def NewFormatter_f1_def NewFormatter_f2_def

lemmas compile_eval = compiled_Format_def NewFormatter_def Formatter_Format_def scan_eval
  check_extra_def ascii_letter_def


text \<open>
  The same defect of the escaping pattern \<open>fmtBackquoteRe\<close> is behind the four statements
  of this section: a \<open>%\<close> and a digit followed by a second \<open>%\<close> match its alternative
  \<^verbatim>\<open>[1-9][^n]\<close>, so the second \<open>%\<close> is consumed by the match and is never escaped
  itself; and a \<open>%\<close> (or \<open>%\<close> and a digit) that ends the template matches neither
  alternative. \<open>Sprintf\<close> then reads the unescaped \<open>%\<close> as the start of a verb.
\<close>

text \<open>
  Where the escaping pass is complete, the two paths agree and the skeleton has as many
  placeholders as there are functions.
\<close>

lemma digit_not_code: "digit_1_9 d \<Longrightarrow> d \<notin> set (CHR ''%'' # format_codes)"
  by (auto simp: digit_1_9_def format_codes_eq)

lemma fmtRe_code: "c1 \<in> set (CHR ''%'' # format_codes) \<Longrightarrow> fmtRe (CHR ''%'' # c1 # y) = Some 2"
  by (simp add: fmtRe_def)

lemma fmtRe_nano: "digit_1_9 d \<Longrightarrow> fmtRe (CHR ''%'' # d # CHR ''n'' # y) = Some 3"
  using digit_not_code [of d] by (simp add: fmtRe_def)

lemma fmtRe_digit_other:
  "digit_1_9 d \<Longrightarrow> c2 \<noteq> CHR ''n'' \<Longrightarrow> fmtRe (CHR ''%'' # d # c2 # y) = None"
  using digit_not_code [of d] by (simp add: fmtRe_def)

lemma fmtRe_unknown:
  "c1 \<notin> set (CHR ''%'' # format_codes) \<Longrightarrow> \<not> digit_1_9 c1 \<Longrightarrow> fmtRe (CHR ''%'' # c1 # y) = None"
  by (simp add: fmtRe_def)

lemma fmtBackquoteRe_not_percent: "c \<noteq> CHR ''%'' \<Longrightarrow> fmtBackquoteRe (c # y) = None"
  by (auto simp: fmtBackquoteRe_def split: list.splits)

lemma fmtBackquoteRe_code:
  "c1 \<in> set format_codes \<Longrightarrow> fmtBackquoteRe (CHR ''%'' # c1 # y) = None"
  by (auto simp: fmtBackquoteRe_def digit_1_9_def format_codes_eq)

lemma fmtBackquoteRe_percent: "fmtBackquoteRe (CHR ''%'' # CHR ''%'' # y) = Some 2"
  by (simp add: fmtBackquoteRe_def digit_1_9_def format_codes_eq)

lemma fmtBackquoteRe_nano:
  "digit_1_9 d \<Longrightarrow> fmtBackquoteRe (CHR ''%'' # d # CHR ''n'' # y) = None"
  by (simp add: fmtBackquoteRe_def)

lemma fmtBackquoteRe_digit_other:
  "digit_1_9 d \<Longrightarrow> c2 \<noteq> CHR ''n'' \<Longrightarrow> fmtBackquoteRe (CHR ''%'' # d # c2 # y) = Some 3"
  by (simp add: fmtBackquoteRe_def)

lemma fmtBackquoteRe_unknown:
  "c1 \<notin> set (CHR ''%'' # format_codes) \<Longrightarrow> \<not> digit_1_9 c1
    \<Longrightarrow> fmtBackquoteRe (CHR ''%'' # c1 # y) = Some 2"
  by (simp add: fmtBackquoteRe_def)

lemma Sprintf_copy: "c \<noteq> CHR ''%'' \<Longrightarrow> Sprintf (c # y) args = map_option ((#) c) (Sprintf y args)"
  by (cases y) simp_all

lemma count_placeholders_copy:
  "c \<noteq> CHR ''%'' \<Longrightarrow> count_placeholders (c # y) = count_placeholders y"
  by (cases y) simp_all

lemma formats_code: "c1 \<in> set format_codes \<Longrightarrow> \<exists>f. formats [CHR ''%'', c1] = Some f"
  by (auto simp: format_codes_eq formats_def formats_list_def)

lemma formats_nano: "formats [CHR ''%'', d, CHR ''n''] = None"
  by (simp add: formats_def formats_list_def)

lemmas pass_simps = ReplaceAllStringFunc.simps(2) NewFormatter_f_def NewFormatter_f1_def
  NewFormatter_f2_def Format_Cons Format_Nil Sprintf_copy count_placeholders_copy
  fmtRe_not_percent fmtBackquoteRe_not_percent

lemma compiles_as_copy:
  assumes "c \<noteq> CHR ''%''" and "compiles_as y t sz funs0"
  shows "compiles_as (c # y) t sz funs0"
  using assms unfolding compiles_as_def
  by (auto simp: pass_simps)

lemma compiles_as_Nil: "compiles_as [] t sz funs0"
  unfolding compiles_as_def by (simp add: Format_Nil check_extra_def)

lemma compiles_as_percent:
  assumes "compiles_as y t sz funs0"
  shows "compiles_as (CHR ''%'' # CHR ''%'' # y) t sz funs0"
  using assms unfolding compiles_as_def
  by (auto simp: pass_simps fmtBackquoteRe_percent fmtRe_code repl_def)


lemma compiles_as_code:
  assumes c1: "c1 \<in> set format_codes"
    and y: "\<And>sz funs0. compiles_as y t sz funs0"
  shows "compiles_as (CHR ''%'' # c1 # y) t sz funs0"
proof -
  obtain f where f: "formats [CHR ''%'', c1] = Some f"
    using formats_code [OF c1] by blast
  then obtain v where v: "f t = Inr v"
    using formats_total by blast
  have ne: "c1 \<noteq> CHR ''%''"
    using c1 by (auto simp: format_codes_eq)
  have re: "fmtRe (CHR ''%'' # c1 # z) = Some 2" for z
    using c1 by (simp add: fmtRe_code)
  obtain s0 s1 funs args out
    where "ReplaceAllStringFunc fmtBackquoteRe y NewFormatter_f () = Inr (s0, ())"
      and "ReplaceAllStringFunc fmtRe s0 NewFormatter_f1 (sz + 1) = Inr (s1, sz + 1 + length funs)"
      and "ReplaceAllStringFunc fmtRe y NewFormatter_f2 (funs0 @ [f]) = Inr (y, (funs0 @ [f]) @ funs)"
      and "call_funs funs t = Inr args" and "Format y t = Inr out" and "Sprintf s1 args = Some out"
      and "count_placeholders s1 = length funs"
    using y [of "sz + 1" "funs0 @ [f]"] unfolding compiles_as_def by blast
  then show ?thesis
    unfolding compiles_as_def using f v ne c1
    by (intro exI [of _ "CHR ''%'' # c1 # s0"] exI [of _ "''%s'' @ s1"] exI [of _ "f # funs"]
        exI [of _ "v # args"] exI [of _ "v @ out"])
      (simp add: pass_simps re fmtBackquoteRe_code repl_def)
qed

lemma compiles_as_nano:
  assumes d: "digit_1_9 d"
    and y: "\<And>sz funs0. compiles_as y t sz funs0"
  shows "compiles_as (CHR ''%'' # d # CHR ''n'' # y) t sz funs0"
proof -
  let ?m = "[CHR ''%'', d, CHR ''n'']"
  let ?f = "\<lambda>t. formatNanoForMatch ?m t"
  obtain v where v: "formatNanoForMatch ?m t = Inr v"
    using formatNanoForMatch_total [of ?m t] by auto
  have ne: "d \<noteq> CHR ''%''"
    using d by (auto simp: digit_1_9_def)
  obtain s0 s1 funs args out
    where "ReplaceAllStringFunc fmtBackquoteRe y NewFormatter_f () = Inr (s0, ())"
      and "ReplaceAllStringFunc fmtRe s0 NewFormatter_f1 (sz + 1) = Inr (s1, sz + 1 + length funs)"
      and "ReplaceAllStringFunc fmtRe y NewFormatter_f2 (funs0 @ [?f]) = Inr (y, (funs0 @ [?f]) @ funs)"
      and "call_funs funs t = Inr args" and "Format y t = Inr out" and "Sprintf s1 args = Some out"
      and "count_placeholders s1 = length funs"
    using y [of "sz + 1" "funs0 @ [?f]"] unfolding compiles_as_def by blast
  then show ?thesis
    unfolding compiles_as_def using v ne d
    by (intro exI [of _ "CHR ''%'' # d # CHR ''n'' # s0"] exI [of _ "''%s'' @ s1"]
        exI [of _ "?f # funs"] exI [of _ "v # args"] exI [of _ "v @ out"])
      (simp add: pass_simps fmtRe_nano fmtBackquoteRe_nano repl_def formats_nano)
qed

lemma compiles_as_digit_other:
  assumes d: "digit_1_9 d" and c2: "c2 \<noteq> CHR ''n''" "c2 \<noteq> CHR ''%''"
    and y: "compiles_as y t sz funs0"
  shows "compiles_as (CHR ''%'' # d # c2 # y) t sz funs0"
proof -
  have ne: "d \<noteq> CHR ''%''"
    using d by (auto simp: digit_1_9_def)
  show ?thesis
    using y d c2 ne unfolding compiles_as_def
    by (auto simp: pass_simps fmtRe_digit_other fmtBackquoteRe_digit_other fmtRe_code)
qed

lemma compiles_as_unknown:
  assumes c1: "c1 \<notin> set (CHR ''%'' # format_codes)" "\<not> digit_1_9 c1"
    and y: "compiles_as y t sz funs0"
  shows "compiles_as (CHR ''%'' # c1 # y) t sz funs0"
proof -
  have ne: "c1 \<noteq> CHR ''%''"
    using c1 by simp
  show ?thesis
    using y c1 ne unfolding compiles_as_def
    by (auto simp: pass_simps fmtRe_unknown fmtBackquoteRe_unknown fmtRe_code)
qed

lemma escapes_all_compiles_as: "escapes_all s \<Longrightarrow> compiles_as s t sz funs0"
proof (induction s arbitrary: sz funs0 rule: escapes_all.induct)
  case 1
  show ?case by (rule compiles_as_Nil)
next
  case (2 c)
  then show ?case
    using compiles_as_copy [OF _ compiles_as_Nil] by simp
next
  case (3 c c1 r sz funs0)
  show ?case
  proof (cases "c \<noteq> CHR ''%''")
    case True
    then show ?thesis
      using 3 by (simp add: compiles_as_copy)
  next
    case c: False
    show ?thesis
    proof (cases "c1 \<in> set (CHR ''%'' # format_codes)")
      case True
      then have r: "compiles_as r t sz funs0" for sz funs0
        using 3 c by simp
      show ?thesis
      proof (cases "c1 = CHR ''%''")
        case True
        then show ?thesis
          using c r compiles_as_percent by simp
      next
        case False
        then have "c1 \<in> set format_codes"
          using True by simp
        then show ?thesis
          using c r compiles_as_code by simp
      qed
    next
      case unknown: False
      show ?thesis
      proof (cases "digit_1_9 c1")
        case False
        then have "compiles_as r t sz funs0"
          using 3 c unknown by simp
        then show ?thesis
          using c unknown False compiles_as_unknown by simp
      next
        case True
        then obtain c2 r' where r: "r = c2 # r'" and c2: "c2 \<noteq> CHR ''%''" and "escapes_all r'"
          using "3.prems" c unknown by (auto split: list.splits)
        then have r': "compiles_as r' t sz funs0" for sz funs0
          using "3.IH"(3) c unknown True by simp
        show ?thesis
        proof (cases "c2 = CHR ''n''")
          case True
          then show ?thesis
            using c r r' \<open>digit_1_9 c1\<close> compiles_as_nano by simp
        next
          case False
          then show ?thesis
            using c r c2 r' \<open>digit_1_9 c1\<close> compiles_as_digit_other by simp
        qed
      qed
    qed
  qed
qed

lemma escaped_templates_agree:
  assumes "escapes_all template"
  shows "\<exists>out. Format template t = Inr out \<and> compiled_Format template t = Inr (Some out)"
proof -
  obtain s0 s1 funs args out
    where "ReplaceAllStringFunc fmtBackquoteRe template NewFormatter_f () = Inr (s0, ())"
      and "ReplaceAllStringFunc fmtRe s0 NewFormatter_f1 0 = Inr (s1, 0 + length funs)"
      and "ReplaceAllStringFunc fmtRe template NewFormatter_f2 [] = Inr (template, [] @ funs)"
      and "call_funs funs t = Inr args" and "Format template t = Inr out"
      and "Sprintf s1 args = Some out"
    using escapes_all_compiles_as [OF assms, of t 0 "[]"] unfolding compiles_as_def by blast
  then show ?thesis
    by (simp add: compiled_Format_def NewFormatter_def Formatter_Format_def)
qed

lemma Format_literal_percent:
  assumes "consumes_all s"
  shows "\<exists>out out'. Format s t = Inr out \<and> Format y t = Inr out' \<and>
    Format (s @ ''%%'' @ y) t = Inr (out @ ''%'' @ out')"
proof -
  obtain out out' where "Format s t = Inr out" and "Format y t = Inr out'"
    using Format_total by blast
  then show ?thesis
    using Format_append [OF assms, of "CHR ''%'' # y" t]
    by (simp add: Format_Cons [of "CHR ''%''"] fmtRe_def repl_def)
qed

text \<open>
  C1. The one-shot and the compiled formatter are claimed to agree on every template. On the
  template \<open>%\<close> the one-shot formatter returns \<open>%\<close>; the compiled one returns
  \<^verbatim>\<open>%!(NOVERB)\<close>, for every timestamp.
\<close>

theorem one_shot_compiled_differ:
  "Format ''%'' t = Inr ''%'' \<and> compiled_Format ''%'' t = Inr (Some ''%!(NOVERB)'')"
  by (simp add: Format_Cons Format_Nil compile_eval)

text \<open>
  C2. The skeleton is claimed to hold as many \<open>%s\<close> placeholders as there are resolution
  functions. For the template \<^verbatim>\<open>%1%s\<close> the skeleton is \<^verbatim>\<open>%%1%s\<close>, which
  \<open>Sprintf\<close> reads as a literal percent sign, the digit 1 and one placeholder, while the
  function sequence is empty.
\<close>

theorem placeholder_count_mismatch:
  "\<exists>f. NewFormatter ''%1%s'' = Inr f \<and> strFormat f = ''%%1%s'' \<and>
     count_placeholders (strFormat f) = 1 \<and> formatFunc f t = Inr [] \<and>
     Formatter_Format f t = Inr (Some ''%1%!s(MISSING)'')"
  by (simp add: compile_eval)

text \<open>
  C7. A \<open>%\<close> followed by an unknown character is claimed to pass through both paths. The
  template \<open>%g\<close> does; in \<^verbatim>\<open>%1%g\<close> the one-shot formatter copies \<open>%g\<close>, the
  compiled one prints \<^verbatim>\<open>%!g(MISSING)\<close> in its place.
\<close>

theorem unknown_directive_after_digit:
  "Format ''%g'' t = Inr ''%g'' \<and> compiled_Format ''%g'' t = Inr (Some ''%g'') \<and>
   Format ''%1%g'' t = Inr ''%1%g'' \<and>
   compiled_Format ''%1%g'' t = Inr (Some ''%1%!g(MISSING)'')"
  by (simp add: Format_Cons Format_Nil compile_eval)

text \<open>
  C8. \<open>%%\<close> is claimed to render as one \<open>%\<close> in both paths wherever it stands. The two
  examples of the specification do; in \<^verbatim>\<open>%1%%g\<close> the one-shot formatter renders
  \<^verbatim>\<open>%1%g\<close>, the compiled one \<^verbatim>\<open>%1%%!g(MISSING)\<close>.
\<close>

theorem literal_percent_after_digit:
  "Format ''%%%Y'' testTime = Inr ''%2009'' \<and>
   compiled_Format ''%%%Y'' testTime = Inr (Some ''%2009'') \<and>
   Format ''%3%%'' testTime = Inr ''%3%'' \<and>
   compiled_Format ''%3%%'' testTime = Inr (Some ''%3%'') \<and>
   Format ''%1%%g'' t = Inr ''%1%g'' \<and>
   compiled_Format ''%1%%g'' t = Inr (Some ''%1%%!g(MISSING)'')"
  by (simp add: Format_Cons Format_Nil compile_eval repl_def formats_def formats_list_def
      testTime_layouts)

section \<open>Week number\<close>

lemma unixNano_Add: "unixNano (Add s d) = unixNano s + d"
  by (simp add: Add_def unixNano_def Let_def)

lemma unixNano_funpow_Add:
  "unixNano (((\<lambda>start. Add start WEEK) ^^ k) s) = unixNano s + int k * WEEK"
  by (induction k) (simp_all add: unixNano_Add algebra_simps)

lemma WEEK_pos: "0 < WEEK"
  by (simp add: WEEK_def Hour_ns_def)

lemma accumulator_reaches:
  "\<exists>k. \<not> Before (((\<lambda>start. Add start WEEK) ^^ k) s) t"
proof -
  let ?n = "nat (unixNano t - unixNano s)"
  have "int ?n \<le> int ?n * WEEK"
    using WEEK_pos by (simp add: mult_le_cancel_left1)
  then have "unixNano t \<le> unixNano s + int ?n * WEEK"
    by linarith
  then have "\<not> Before (((\<lambda>start. Add start WEEK) ^^ ?n) s) t"
    by (simp add: Before_def unixNano_funpow_Add)
  then show ?thesis ..
qed

lemma week_loop_Least:
  "week_loop start t week
     = week + int (LEAST k. \<not> Before (((\<lambda>start. Add start WEEK) ^^ k) start) t)"
proof (induction start t week rule: week_loop.induct)
  case (1 start t week)
  let ?P = "\<lambda>s k. \<not> Before (((\<lambda>start. Add start WEEK) ^^ k) s) t"
  show ?case
  proof (cases "Before start t")
    case False
    then have "?P start 0" by simp
    then have "(LEAST k. ?P start k) = 0"
      by (rule Least_eq_0)
    then show ?thesis
      using False by (simp add: week_loop.simps [of start])
  next
    case True
    then have not0: "\<not> ?P start 0" by simp
    obtain n where n: "?P start n"
      using accumulator_reaches by blast
    have "(LEAST k. ?P start k) = Suc (LEAST m. ?P start (Suc m))"
      using n not0 by (rule Least_Suc)
    also have "(\<lambda>m. ?P start (Suc m)) = (\<lambda>m. ?P (Add start WEEK) m)"
    proof -
      have "Add (((\<lambda>start. Add start WEEK) ^^ m) start) WEEK
          = ((\<lambda>start. Add start WEEK) ^^ m) (Add start WEEK)" for m
        using funpow_swap1 [of "\<lambda>start. Add start WEEK" m start] by simp
      then show ?thesis by simp
    qed
    finally have "(LEAST k. ?P start k) = Suc (LEAST m. ?P (Add start WEEK) m)" .
    then show ?thesis
      using True "1.IH" by (simp add: week_loop.simps [of start])
  qed
qed

lemma week_loop_nonneg: "0 \<le> week \<Longrightarrow> 0 \<le> week_loop start t week"
  by (simp add: week_loop_Least)

lemma weekNumberFormatter_spec:
  "weekNumberFormatter t = pad0 2 (decimal (additions_needed t))"
  by (simp add: weekNumberFormatter_def Let_def week_loop_Least additions_needed_def
      accumulator_def Sprintf_0d_def)

text \<open>
  C4. \<open>%U\<close> and \<open>%W\<close> are the same entry of the table, and for every timestamp it renders
  the number of seven-day additions after which the accumulator, started at January 1, 23:00
  UTC of the timestamp's year, is no longer before the timestamp, padded with zeros to two
  digits.
\<close>

theorem week_number_directives:
  "formats ''%U'' = formats ''%W'' \<and>
   Format ''%U'' t = Inr (pad0 2 (decimal (additions_needed t))) \<and>
   Format ''%W'' t = Inr (pad0 2 (decimal (additions_needed t)))"
  by (simp add: Format_single format_codes_eq repl_def formats_def formats_list_def
      weekNumberFormatter_spec)

section \<open>Day of year\<close>

text \<open>
  The rounding error of \<open>float64\<close>: the exponent found by \<open>exponent\<close> brackets its
  argument, so a result differs from the exact value by at most half a unit in the last
  place, and an integer below \<open>2^53\<close> is exact.
\<close>

lemma pow2_powi: "pow2 k = 2 powi k"
  by (simp add: pow2_def power_int_def power_inverse [symmetric] inverse_eq_divide power_one_over)

lemma pow2_pos: "0 < pow2 k"
  by (simp add: pow2_powi)

lemma pow2_Suc: "pow2 (k + 1) = 2 * pow2 k"
  by (simp add: pow2_powi power_int_add_1')

lemma pow2_mono: "j \<le> k \<Longrightarrow> pow2 j \<le> pow2 k"
  by (simp add: pow2_powi power_int_increasing)

lemma pow2_less_imp: "pow2 j < pow2 k \<Longrightarrow> j < k"
  using pow2_mono [of k j] by (cases "j < k") auto

lemma exp_up_bounds: "1 \<le> q \<Longrightarrow> pow2 (exp_up q) \<le> q \<and> q < pow2 (exp_up q + 1)"
proof (induction q rule: exp_up.induct)
  case (1 q)
  show ?case
  proof (cases "2 \<le> q")
    case True
    then have ih: "pow2 (exp_up (q / 2)) \<le> q / 2" "q / 2 < pow2 (exp_up (q / 2) + 1)"
      using 1 by simp_all
    have e: "exp_up q = exp_up (q / 2) + 1"
      using True by (simp add: exp_up.simps [of q])
    have "pow2 (exp_up q) = 2 * pow2 (exp_up (q / 2))"
      and "pow2 (exp_up q + 1) = 2 * pow2 (exp_up (q / 2) + 1)"
      unfolding e by (rule pow2_Suc)+
    then show ?thesis
      using ih by linarith
  next
    case False
    then show ?thesis
      using 1 by (simp add: exp_up.simps [of q] pow2_def)
  qed
qed

lemma exp_down_bounds:
  "0 < q \<Longrightarrow> q < 1 \<Longrightarrow> pow2 (exp_down q) \<le> q \<and> q < pow2 (exp_down q + 1)"
proof (induction q rule: exp_down.induct)
  case (1 q)
  show ?case
  proof (cases "q * 2 < 1")
    case True
    then have ih: "pow2 (exp_down (q * 2)) \<le> q * 2" "q * 2 < pow2 (exp_down (q * 2) + 1)"
      using 1 by simp_all
    have e: "exp_down q + 1 = exp_down (q * 2)"
      using 1 by (simp add: exp_down.simps [of q])
    have "pow2 (exp_down q + 1) = 2 * pow2 (exp_down q)"
      and "pow2 (exp_down q + 1 + 1) = 2 * pow2 (exp_down q + 1)"
      by (rule pow2_Suc)+
    then show ?thesis
      using ih unfolding e [symmetric] by linarith
  next
    case False
    then have "exp_down (q * 2) = 0"
      by (simp add: exp_down.simps [of "q * 2"])
    then show ?thesis
      using 1 False by (simp add: exp_down.simps [of q] pow2_def)
  qed
qed

lemma exponent_bounds: "0 < q \<Longrightarrow> pow2 (exponent q) \<le> q \<and> q < pow2 (exponent q + 1)"
  using exp_up_bounds [of q] exp_down_bounds [of q] by (simp add: exponent_def)

lemma exponent_less: "0 < q \<Longrightarrow> q < pow2 (E + 1) \<Longrightarrow> exponent q \<le> E"
proof -
  assume q: "0 < q" "q < pow2 (E + 1)"
  then have "pow2 (exponent q) < pow2 (E + 1)"
    using exponent_bounds [of q] by simp
  then show ?thesis
    using pow2_less_imp by fastforce
qed

lemma exponent_ge: "pow2 E \<le> q \<Longrightarrow> E \<le> exponent q"
proof -
  assume "pow2 E \<le> q"
  moreover from this have "0 < q"
    using pow2_pos [of E] by simp
  ultimately have "pow2 E < pow2 (exponent q + 1)"
    using exponent_bounds [of q] by simp
  then show ?thesis
    using pow2_less_imp by fastforce
qed

lemma round_even_error: "\<bar>of_int (round_even m) - m\<bar> \<le> 1 / 2"
proof -
  have "of_int \<lfloor>m\<rfloor> \<le> m" and "m < of_int \<lfloor>m\<rfloor> + 1"
    by linarith+
  then show ?thesis
    by (auto simp: round_even_def)
qed

lemma round_even_of_int: "round_even (of_int k) = k"
  by (simp add: round_even_def)

lemma float64_error: "\<bar>float64 q - q\<bar> \<le> ulp q / 2"
proof (cases "q = 0")
  case True
  then show ?thesis
    using pow2_pos [of "max (exponent 0) (- 1022) - 52"] by (simp add: float64_def ulp_def)
next
  case False
  have u: "0 < ulp q"
    by (simp add: ulp_def pow2_pos)
  let ?r = "of_int (round_even (\<bar>q\<bar> / ulp q)) :: rat"
  have "\<bar>?r - \<bar>q\<bar> / ulp q\<bar> \<le> 1 / 2"
    by (rule round_even_error)
  then have "\<bar>?r - \<bar>q\<bar> / ulp q\<bar> * ulp q \<le> 1 / 2 * ulp q"
    using u by (simp add: mult_right_mono)
  moreover have "(?r - \<bar>q\<bar> / ulp q) * ulp q = ?r * ulp q - \<bar>q\<bar>"
    using u by (simp add: left_diff_distrib)
  then have "\<bar>?r - \<bar>q\<bar> / ulp q\<bar> * ulp q = \<bar>?r * ulp q - \<bar>q\<bar>\<bar>"
    using u by (metis abs_mult abs_of_pos)
  ultimately have e: "\<bar>?r * ulp q - \<bar>q\<bar>\<bar> \<le> ulp q / 2"
    by simp
  have "float64 q - q = sgn q * ?r * ulp q - sgn q * \<bar>q\<bar>"
    using False by (simp add: float64_def sgn_mult_abs)
  also have "\<dots> = sgn q * (?r * ulp q - \<bar>q\<bar>)"
    by (simp add: algebra_simps)
  finally have "\<bar>float64 q - q\<bar> = \<bar>sgn q\<bar> * \<bar>?r * ulp q - \<bar>q\<bar>\<bar>"
    by (simp add: abs_mult)
  then have "\<bar>float64 q - q\<bar> = \<bar>?r * ulp q - \<bar>q\<bar>\<bar>"
    using False by (simp add: abs_sgn_eq)
  then show ?thesis
    using e by simp
qed

lemma ulp_le:
  assumes "0 < q" and "q < pow2 (E + 1)" and "- 1022 \<le> E"
  shows "ulp q \<le> pow2 (E - 52)"
proof -
  have "exponent \<bar>q\<bar> \<le> E"
    using assms exponent_less [of q E] by simp
  then show ?thesis
    using assms(3) by (simp add: ulp_def pow2_mono)
qed

lemma float64_near:
  assumes "0 \<le> q" and "q < pow2 (E + 1)" and "- 1022 \<le> E"
  shows "\<bar>float64 q - q\<bar> \<le> pow2 (E - 52) / 2"
proof (cases "q = 0")
  case True
  then show ?thesis
    using pow2_pos [of "E - 52"] by (simp add: float64_def)
next
  case False
  then have "ulp q \<le> pow2 (E - 52)"
    using assms ulp_le by simp
  then show ?thesis
    using float64_error [of q] by linarith
qed

lemma round_even_nonneg: "0 \<le> m \<Longrightarrow> 0 \<le> round_even m"
  by (auto simp: round_even_def)

lemma float64_nonneg: "0 \<le> q \<Longrightarrow> 0 \<le> float64 q"
proof -
  assume q: "0 \<le> q"
  have "0 < ulp q"
    by (simp add: ulp_def pow2_pos)
  then have "0 \<le> round_even (\<bar>q\<bar> / ulp q)"
    using q by (intro round_even_nonneg) simp
  then show ?thesis
    using q \<open>0 < ulp q\<close> by (simp add: float64_def sgn_if)
qed

lemma float64_of_int:
  assumes "0 \<le> k" and "k < 2 ^ 53"
  shows "float64 (of_int k) = of_int k"
proof (cases "k = 0")
  case True
  then show ?thesis by (simp add: float64_def)
next
  case False
  let ?q = "of_int k :: rat"
  let ?e = "exponent ?q"
  have pos: "0 < ?q"
    using assms False by simp
  have "pow2 0 \<le> ?q"
    using assms False by (simp add: pow2_def)
  then have lo: "0 \<le> ?e"
    by (rule exponent_ge)
  have "?q < pow2 (52 + 1)"
    using assms(2) by (simp add: pow2_def)
  then have hi: "?e \<le> 52"
    using pos exponent_less [of ?q 52] by simp
  obtain n where n: "52 - ?e = int n"
    using hi by (metis diff_ge_0_iff_ge nonneg_int_cases)
  have u: "ulp ?q = 1 / 2 ^ n"
  proof -
    have "max ?e (- 1022) - 52 = - int n"
      using lo n by simp
    then show ?thesis
      using pos by (simp add: ulp_def pow2_def)
  qed
  have "\<bar>?q\<bar> / ulp ?q = of_int (k * 2 ^ n)"
    using pos by (simp add: u)
  then have "round_even (\<bar>?q\<bar> / ulp ?q) = k * 2 ^ n"
    by (simp only: round_even_of_int)
  then show ?thesis
    using pos by (simp add: float64_def u)
qed

text \<open>
  On a timestamp that falls on a whole second, on or after midnight UTC of January 1 of its
  year, the three roundings cannot carry the quotient across an integer: the code renders
  the number of whole 24-hour periods plus 1.
\<close>

lemma quo_whole_seconds:
  assumes "0 \<le> s"
  shows "quo (s * 1000000000) Hour_ns = s div 3600"
    and "rem (s * 1000000000) Hour_ns = (s mod 3600) * 1000000000"
    and "quo (s * 1000000000) (24 * Hour_ns) = s div 86400"
proof -
  have a: "(s * 1000000000) div (3600 * 1000000000) = s div 3600"
    by (rule div_mult_mult2) simp
  have b: "(s * 1000000000) div (86400 * 1000000000) = s div 86400"
    by (rule div_mult_mult2) simp
  show q: "quo (s * 1000000000) Hour_ns = s div 3600"
    using assms a by (cases "s = 0") (simp_all add: quo_def Hour_ns_def sgn_if)
  show "quo (s * 1000000000) (24 * Hour_ns) = s div 86400"
    using assms b by (cases "s = 0") (simp_all add: quo_def Hour_ns_def sgn_if)
  define h where "h = s div 3600"
  define r where "r = s mod 3600"
  have "s = 3600 * h + r"
    by (simp add: h_def r_def)
  then have "s * 1000000000 - 3600000000000 * h = r * 1000000000"
    by simp
  then have "s * 1000000000 - 3600000000000 * (s div 3600) = (s mod 3600) * 1000000000"
    by (simp add: h_def r_def)
  then show "rem (s * 1000000000) Hour_ns = (s mod 3600) * 1000000000"
    unfolding rem_def q by (simp add: Hour_ns_def)
qed

lemma abs_boundD: "\<bar>x - y\<bar> \<le> e \<Longrightarrow> x \<le> y + e \<and> y - e \<le> (x::rat)"
  by linarith

lemma whole_seconds_days:
  assumes s0: "0 \<le> s" and s1: "s < 9223372036"
  shows "float_to_int (float64 (Hours (s * 1000000000) / float64 24)) = s div 86400"
proof -
  define H where "H = s div 3600"
  define R where "R = s mod 3600"
  define N where "N = s div 86400"
  define M where "M = s mod 86400"
  have HR: "s = 3600 * H + R" and R: "0 \<le> R" "R < 3600"
    by (simp_all add: H_def R_def)
  have NM: "s = 86400 * N + M" and M: "0 \<le> M" "M < 86400"
    by (simp_all add: N_def M_def)
  have "s div 3600 \<le> 9223372035 div 3600"
    using s1 by (intro zdiv_mono1) simp_all
  then have H: "0 \<le> H" "H \<le> 2562047"
    using s0 by (simp_all add: H_def pos_imp_zdiv_nonneg_iff)
  have N: "0 \<le> N"
    using s0 by (simp add: N_def pos_imp_zdiv_nonneg_iff)
  have c: "float64 (60 * 60 * 1000000000) = 3600000000000" and c24: "float64 24 = 24"
    by (simp_all add: float_eval)
  have fH: "float64 (of_int H) = of_int H"
    using H by (intro float64_of_int) simp_all
  have fR: "float64 (of_int (R * 1000000000)) = of_int (R * 1000000000)"
    using R by (intro float64_of_int) simp_all
  define x1 where "x1 = float64 (of_int R / 3600)"
  define x2 where "x2 = float64 (of_int H + x1)"
  define x3 where "x3 = float64 (x2 / 24)"
  have hours: "Hours (s * 1000000000) = x2"
    using s0 unfolding Hours_def Let_def quo_whole_seconds [OF s0] H_def [symmetric]
      R_def [symmetric] fH fR c x2_def x1_def
    by simp
  have q1: "0 \<le> (of_int R / 3600 :: rat)" "(of_int R / 3600 :: rat) < 1"
    using R by simp_all
  have p1: "pow2 (- 1 + 1) = 1" "pow2 (- 1 - 52) / 2 = 1 / 18014398509481984"
    and p2: "pow2 (21 + 1) = 4194304" "pow2 (21 - 52) / 2 = 1 / 4294967296"
    and p3: "pow2 (17 + 1) = 262144" "pow2 (17 - 52) / 2 = 1 / 68719476736"
    by (simp_all add: pow2_def)
  have "\<bar>x1 - of_int R / 3600\<bar> \<le> 1 / 18014398509481984"
    using float64_near [of "of_int R / 3600" "- 1"] q1 unfolding p1 x1_def by simp
  then have x1: "x1 \<le> of_int R / 3600 + 1 / 18014398509481984"
    "of_int R / 3600 - 1 / 18014398509481984 \<le> x1"
    using abs_boundD by blast+
  have x1_pos: "0 \<le> x1"
    using float64_nonneg [of "of_int R / 3600"] q1 by (simp add: x1_def)
  have q2: "0 \<le> of_int H + x1" "of_int H + x1 < 4194304"
  proof -
    have "(of_int H :: rat) \<le> 2562047" "(0::rat) \<le> of_int H"
      using H by simp_all
    then show "0 \<le> of_int H + x1" "of_int H + x1 < 4194304"
      using x1 x1_pos q1 by linarith+
  qed
  have "\<bar>x2 - (of_int H + x1)\<bar> \<le> 1 / 4294967296"
    using float64_near [of "of_int H + x1" 21] q2 unfolding p2 x2_def by simp
  then have x2: "x2 \<le> of_int H + x1 + 1 / 4294967296"
    "of_int H + x1 - 1 / 4294967296 \<le> x2"
    using abs_boundD by blast+
  have x2_pos: "0 \<le> x2"
    using float64_nonneg [of "of_int H + x1"] q2 by (simp add: x2_def)
  have q3: "0 \<le> x2 / 24" "x2 / 24 < 262144"
    using x2 x2_pos q2 by simp_all
  have "\<bar>x3 - x2 / 24\<bar> \<le> 1 / 68719476736"
    using float64_near [of "x2 / 24" 17] q3 unfolding p3 x3_def by simp
  then have x3: "x3 \<le> x2 / 24 + 1 / 68719476736" "x2 / 24 - 1 / 68719476736 \<le> x3"
    using abs_boundD by blast+
  have x3_pos: "0 \<le> x3"
    using float64_nonneg [of "x2 / 24"] q3 by (simp add: x3_def)
  have sum: "(of_int H :: rat) + of_int R / 3600 = of_int s / 3600"
    by (simp add: HR)
  have day: "(of_int s :: rat) / 3600 = 24 * of_int N + of_int M / 3600"
    by (simp add: NM)
  have "\<lfloor>x3\<rfloor> = N"
  proof (cases "M = 0")
    case True
    then have "s = 3600 * (24 * N)"
      using NM by simp
    then have "R = 0" and "H = 24 * N"
      by (simp_all add: R_def H_def)
    then have "x1 = 0"
      by (simp add: x1_def float64_def)
    then have "x2 = of_int (24 * N)"
      using fH \<open>H = 24 * N\<close> by (simp add: x2_def)
    then have "x3 = float64 (of_int N)"
      by (simp add: x3_def)
    also have "\<dots> = of_int N"
      using N H \<open>H = 24 * N\<close> by (intro float64_of_int) simp_all
    finally show ?thesis
      by simp
  next
    case False
    then have "(1::rat) \<le> of_int M" "(of_int M :: rat) \<le> 86399"
      using M by simp_all
    then have "of_int N \<le> x3 \<and> x3 < of_int N + 1"
      using x1 x2 x3 sum day by linarith
    then show ?thesis
      by (simp add: floor_unique)
  qed
  then show ?thesis
    using x3_pos by (simp add: hours c24 x3_def [symmetric] float_to_int_def N_def)
qed

lemma day_of_year_whole_seconds:
  assumes "nsec t = 0"
    and "unixSec (Date_UTC (Year t) 1 1 0 0 0 0) \<le> unixSec t"
    and "unixSec t - unixSec (Date_UTC (Year t) 1 1 0 0 0 0) < 9223372036"
  shows "yearDayFormatter t = day_of_year_spec t"
proof -
  let ?start = "Date_UTC (Year t) 1 1 0 0 0 0"
  define s where "s = unixSec t - unixSec ?start"
  have s: "0 \<le> s" "s < 9223372036"
    using assms by (simp_all add: s_def)
  have "unixNano t - unixNano ?start = s * 1000000000"
    using assms(1) by (simp add: unixNano_def s_def Date_UTC_def algebra_simps)
  then have sub: "Sub t ?start = s * 1000000000"
    using s by (simp add: Sub_def Let_def)
  show ?thesis
    unfolding yearDayFormatter_def day_of_year_spec_def whole_days_def Let_def sub
    by (simp add: whole_seconds_days [OF s] quo_whole_seconds(3) [OF s(1)])
qed

lemma lastNano2009_eq:
  "lastNano2009
     = \<lparr>unixSec = 1262303999, nsec = 999999999, zoneName = ''UTC'', zoneOffset = 0\<rparr>"
  unfolding lastNano2009_def Date_UTC_def days_from_civil_def Let_def by simp

lemma lastNano2009_Year: "Year lastNano2009 = 2009"
  unfolding Year_def lastNano2009_eq localSec_def civil_def Let_def by simp

lemma lastNano2009_Sub:
  "Sub lastNano2009 (Date_UTC (Year lastNano2009) 1 1 0 0 0 0) = 31535999999999999"
proof -
  have "Date_UTC 2009 1 1 0 0 0 0
      = \<lparr>unixSec = 1230768000, nsec = 0, zoneName = ''UTC'', zoneOffset = 0\<rparr>"
    unfolding Date_UTC_def days_from_civil_def Let_def by simp
  then show ?thesis
    unfolding lastNano2009_Year unfolding lastNano2009_eq Sub_def unixNano_def Let_def by simp
qed

text \<open>
  C5. \<open>%j\<close> is claimed to render, for every timestamp, the number of whole 24-hour periods
  since midnight UTC of January 1 of its year, plus 1. At 2009-12-31T23:59:59.999999999Z,
  364 whole periods have passed and the claim gives 365; the code computes the hours in
  \<open>float64\<close>, where 8759 + 3599999999999/3600000000000 rounds to 8760, and renders 366.
\<close>

theorem day_of_year_last_nanosecond:
  "Format ''%j'' lastNano2009 = Inr ''366'' \<and> day_of_year_spec lastNano2009 = ''365'' \<and>
   whole_days lastNano2009 = 364 \<and> Hours 31535999999999999 = 8760"
proof -
  have h: "Hours 31535999999999999 = 8760"
    unfolding Hours_def Let_def by (simp add: float_eval quo_def rem_def Hour_ns_def)
  have d: "float64 (8760 / float64 24) = 365"
    by (simp add: float_eval)
  have "yearDayFormatter lastNano2009 = ''366''"
    unfolding yearDayFormatter_def Let_def lastNano2009_Sub h d
    by (simp add: float_to_int_def decimal_eval)
  moreover have w: "whole_days lastNano2009 = 364"
    unfolding whole_days_def lastNano2009_Sub by (simp add: quo_def Hour_ns_def)
  moreover have "day_of_year_spec lastNano2009 = ''365''"
    unfolding day_of_year_spec_def w by (simp add: decimal_eval)
  ultimately show ?thesis
    using h by (simp add: Format_single format_codes_eq repl_def formats_def formats_list_def)
qed

end
